theory Spec2Isabelle
  imports Complex_Main
begin

section \<open>JavaScript values of the schedule payload\<close>

text \<open>
  The dashboard reads a JSON document (\<open>res.json()\<close> in \<open>outageService.js\<close>) and only ever
  inspects it through truthiness tests, property reads, \<open>String(...)\<close> and comparisons with
  string literals. \<open>jsval\<close> holds the values such a document is made of, \<open>undefined\<close>, which
  property reads produce, and the values of the built-in library (functions and prototype
  objects), which a property read can find by inheritance.

  A number is held as the string \<open>String\<close> prints for it: the code only prints numbers and
  tests them for zero, and the numbers of a JSON document correspond one to one to these
  strings, but for the two zeros, which both print \<open>0\<close>. A built-in value is held as the string \<open>String\<close>
  prints for it as well. A string is its list of code units; an object is the list of its
  own properties.
\<close>

datatype jsval =
    JUndefined
  | JNull
  | JBool bool
  | JNum string
  | JStr string
  | JArr "jsval list"
  | JObj "(string \<times> jsval) list"
  | JBuiltin string

text \<open>\<open>String(...)\<close> is the one operation of the code that can throw.\<close>

datatype error = TypeError

text \<open>\<open>!v\<close> is \<open>\<not> truthy v\<close>: undefined, null, false, 0 and the empty string are falsy.\<close>

fun truthy :: "jsval \<Rightarrow> bool" where
  "truthy JUndefined = False"
| "truthy JNull = False"
| "truthy (JBool b) = b"
| "truthy (JNum s) = (s \<noteq> ''0'')"
| "truthy (JStr s) = (s \<noteq> [])"
| "truthy (JArr xs) = True"
| "truthy (JObj kvs) = True"
| "truthy (JBuiltin s) = True"

fun nullish :: "jsval \<Rightarrow> bool" where
  "nullish JUndefined = True"
| "nullish JNull = True"
| "nullish v = False"

subsection \<open>\<open>String(v)\<close>\<close>

definition digitChar :: "nat \<Rightarrow> char" where
  "digitChar d = ''0123456789'' ! (d mod 10)"

function showNat :: "nat \<Rightarrow> string" where
  "showNat n = (if n < 10 then [digitChar n] else showNat (n div 10) @ [digitChar (n mod 10)])"
  by pat_completeness auto
termination
  by (relation "measure id") auto

declare showNat.simps [simp del]

definition showInt :: "int \<Rightarrow> string" where
  "showInt i = (if i < 0 then CHR ''-'' # showNat (nat (- i)) else showNat (nat i))"

fun joinComma :: "string list \<Rightarrow> string" where
  "joinComma [] = []"
| "joinComma [s] = s"
| "joinComma (s # ss) = s @ '','' @ joinComma ss"

text \<open>The strings of a list of results, or the first error among them.\<close>

fun allOrError :: "(error + 'a) list \<Rightarrow> error + 'a list" where
  "allOrError [] = Inr []"
| "allOrError (Inl e # rs) = Inl e"
| "allOrError (Inr x # rs) = (case allOrError rs of Inl e \<Rightarrow> Inl e | Inr xs \<Rightarrow> Inr (x # xs))"

text \<open>
  \<open>String(v)\<close>. An array prints its elements joined by commas, null and undefined elements
  as the empty string. An object is converted through its \<open>toString\<close> and \<open>valueOf\<close>
  members: without an own \<open>toString\<close> property it inherits the one that prints
  \<open>[object Object]\<close>; with one (a JSON value, so not callable) neither member gives a
  primitive value and the conversion throws a TypeError.
\<close>

fun toString :: "jsval \<Rightarrow> error + string"
  and elemString :: "jsval \<Rightarrow> error + string" where
  "toString JUndefined = Inr ''undefined''"
| "toString JNull = Inr ''null''"
| "toString (JBool b) = Inr (if b then ''true'' else ''false'')"
| "toString (JNum s) = Inr s"
| "toString (JStr s) = Inr s"
| "toString (JArr xs) =
     (case allOrError (map elemString xs) of Inl e \<Rightarrow> Inl e | Inr ss \<Rightarrow> Inr (joinComma ss))"
| "toString (JObj kvs) =
     (if map_of kvs ''toString'' \<noteq> None then Inl TypeError else Inr ''[object Object]'')"
| "toString (JBuiltin s) = Inr s"
| "elemString v = (if nullish v then Inr [] else toString v)"

subsection \<open>Property reads\<close>

text \<open>
  \<open>v?.[k]\<close> for the keys written in the code, \<open>fact\<close>, \<open>today\<close>, \<open>data\<close>, the group keys
  and the hour numbers: undefined on a nullish receiver; an own property of an object; an
  element or the length of an array; a code unit or the length of a string; undefined
  otherwise, since the built-in library has no member of these names. On a receiver that
  is not nullish \<open>v[k]\<close> is the same read.
\<close>

definition arrayIndex :: "nat \<Rightarrow> string \<Rightarrow> nat option" where
  "arrayIndex n k = find (\<lambda>i. showNat i = k) [0..<n]"

fun optMember :: "jsval \<Rightarrow> string \<Rightarrow> jsval" where
  "optMember JUndefined k = JUndefined"
| "optMember JNull k = JUndefined"
| "optMember (JBool b) k = JUndefined"
| "optMember (JNum n) k = JUndefined"
| "optMember (JStr s) k =
     (if k = ''length'' then JNum (showNat (length s))
      else case arrayIndex (length s) k of None \<Rightarrow> JUndefined | Some i \<Rightarrow> JStr [s ! i])"
| "optMember (JArr xs) k =
     (if k = ''length'' then JNum (showNat (length xs))
      else case arrayIndex (length xs) k of None \<Rightarrow> JUndefined | Some i \<Rightarrow> xs ! i)"
| "optMember (JObj kvs) k = (case map_of kvs k of None \<Rightarrow> JUndefined | Some v \<Rightarrow> v)"
| "optMember (JBuiltin s) k = JUndefined"

text \<open>
  \<open>v?.[k]\<close> for a key computed from the data, which can be any string. The own properties
  of a JSON value come first. Beyond them the read finds what the built-in library of the
  engine defines under that name for the receiver, by inheritance from its prototype
  (\<open>constructor\<close>, \<open>toString\<close>, \<open>valueOf\<close>, \<open>__proto__\<close>, ...). Which names these are
  is the engine's, not the source's: the table is the parameter \<open>library\<close>.
\<close>

fun ownMember :: "jsval \<Rightarrow> string \<Rightarrow> jsval option" where
  "ownMember (JStr s) k =
     (if k = ''length'' then Some (JNum (showNat (length s)))
      else map_option (\<lambda>i. JStr [s ! i]) (arrayIndex (length s) k))"
| "ownMember (JArr xs) k =
     (if k = ''length'' then Some (JNum (showNat (length xs)))
      else map_option (\<lambda>i. xs ! i) (arrayIndex (length xs) k))"
| "ownMember (JObj kvs) k = map_of kvs k"
| "ownMember v k = None"

definition optMemberLib :: "(jsval \<Rightarrow> string \<Rightarrow> jsval option) \<Rightarrow> jsval \<Rightarrow> string \<Rightarrow> jsval" where
  "optMemberLib library v k =
     (if nullish v then JUndefined
      else case ownMember v k of
             Some x \<Rightarrow> x
           | None \<Rightarrow> (case library v k of None \<Rightarrow> JUndefined | Some b \<Rightarrow> b))"

text \<open>\<open>v ?? null\<close>\<close>

definition orNull :: "jsval \<Rightarrow> jsval" where
  "orNull v = (if nullish v then JNull else v)"

section \<open>\<open>utils/outage\<close>: status keys and the today pointer\<close>

definition STATUS_ORDER :: "jsval list" where
  "STATUS_ORDER = [JStr ''yes'', JStr ''maybe'', JStr ''no'']"

definition getTodayTimestamp :: "jsval \<Rightarrow> jsval" where
  "getTodayTimestamp data = optMember (optMember data ''fact'') ''today''"

text \<open>
  \<open>data?.fact?.data?.[String(ts)] ?? null\<close>: the optional chain stops at a nullish
  \<open>data?.fact?.data\<close> before the key is computed, so \<open>String(ts)\<close> runs, and can throw,
  only when there is something to read from.
\<close>

definition getTodayData :: "(jsval \<Rightarrow> string \<Rightarrow> jsval option) \<Rightarrow> jsval \<Rightarrow> error + jsval" where
  "getTodayData library data =
     (let ts = getTodayTimestamp data in
      if \<not> truthy ts then Inr JNull
      else let entries = optMember (optMember data ''fact'') ''data'' in
           if nullish entries then Inr JNull
           else case toString ts of
                  Inl e \<Rightarrow> Inl e
                | Inr k \<Rightarrow> Inr (orNull (optMemberLib library entries k)))"

text \<open>\<open>STATUS_ORDER.includes(statusKey)\<close> and \<open>===\<close> against a string literal hold exactly
  when the value is that string.\<close>

definition normalizeStatusKey :: "jsval \<Rightarrow> jsval" where
  "normalizeStatusKey statusKey =
     (if \<not> truthy statusKey then JStr ''maybe''
      else if statusKey \<in> set STATUS_ORDER then statusKey
      else if statusKey = JStr ''first'' \<or> statusKey = JStr ''second'' then statusKey
      else JStr ''maybe'')"

section \<open>Helpers of the dashboard component\<close>

definition expandHourToHalves :: "jsval \<Rightarrow> jsval \<times> jsval" where
  "expandHourToHalves hourStatusKey =
     (let k = normalizeStatusKey hourStatusKey in
      if k = JStr ''first'' then (JStr ''no'', JStr ''yes'')
      else if k = JStr ''second'' then (JStr ''yes'', JStr ''no'')
      else if k = JStr ''yes'' then (JStr ''yes'', JStr ''yes'')
      else if k = JStr ''no'' then (JStr ''no'', JStr ''no'')
      else if k = JStr ''maybe'' then (JStr ''maybe'', JStr ''maybe'')
      else (JStr ''maybe'', JStr ''maybe''))"

definition isOutageKey :: "jsval \<Rightarrow> bool" where
  "isOutageKey statusKey =
     (let k = normalizeStatusKey statusKey in
      k = JStr ''no'' \<or> k = JStr ''first'' \<or> k = JStr ''second'')"

definition statusToLevel :: "jsval \<Rightarrow> nat" where
  "statusToLevel statusKey =
     (let k = normalizeStatusKey statusKey in
      if k = JStr ''yes'' then 2
      else if k = JStr ''maybe'' then 1
      else if k = JStr ''no'' then 0
      else 1)"

definition isNoAtHour :: "jsval \<Rightarrow> bool" where
  "isNoAtHour statusKey = (normalizeStatusKey statusKey = JStr ''no'')"

subsection \<open>Time labels\<close>

text \<open>
  A time coordinate is a JavaScript number; every coordinate of the timeline is a multiple
  of one half between 0 and 24, which doubles hold exactly, so \<open>real\<close> arithmetic is the
  arithmetic of the source there. \<open>t % 1\<close> keeps the sign of \<open>t\<close>.
\<close>

definition pad2 :: "int \<Rightarrow> string" where
  "pad2 v = (let s = showInt v in replicate (2 - length s) CHR ''0'' @ s)"

definition rem1 :: "real \<Rightarrow> real" where
  "rem1 x = (if 0 \<le> x then x - of_int \<lfloor>x\<rfloor> else x - of_int \<lceil>x\<rceil>)"

definition formatHalfHour :: "real \<Rightarrow> string" where
  "formatHalfHour x =
     (let hour = \<lfloor>x\<rfloor>;
          minutes = (if rem1 x = 1 / 2 then 30 else 0)
      in pad2 hour @ '':'' @ pad2 minutes)"

definition formatHalfRange :: "real \<Rightarrow> string" where
  "formatHalfRange startT =
     (let endT = startT + 1 / 2 in formatHalfHour startT @ ''-'' @ formatHalfHour endT)"

text \<open>The template \<open>`${formatHalfHour(a)}-${formatHalfHour(b)}`\<close> of both extractors.\<close>

definition formatInterval :: "real \<times> real \<Rightarrow> string" where
  "formatInterval ab = formatHalfHour (fst ab) @ ''-'' @ formatHalfHour (snd ab)"

section \<open>The half-hour timeline\<close>

text \<open>The keys of \<open>GROUPS\<close>, in order: home, medic, reserve (name and colour are
  presentation only).\<close>

definition GROUPS :: "string list" where
  "GROUPS = [''GPV1.1'', ''GPV2.1'', ''GPV5.1'']"

record row =
  t :: real
  rangeLabel :: string
  homeKey :: jsval
  medicKey :: jsval
  reserveKey :: jsval
  home :: nat
  medic :: nat
  reserve :: nat
  overlapNo :: bool

text \<open>The two rows one iteration of the loop of \<open>chartData\<close> pushes.\<close>

definition hourRows :: "jsval \<Rightarrow> jsval \<Rightarrow> jsval \<Rightarrow> int \<Rightarrow> row list" where
  "hourRows homeG medicG reserveG hourIndex =
     (let baseT = hourIndex - 1;
          (homeA, homeB) = expandHourToHalves (optMember homeG (showInt hourIndex));
          (medicA, medicB) = expandHourToHalves (optMember medicG (showInt hourIndex));
          (reserveA, reserveB) = expandHourToHalves (optMember reserveG (showInt hourIndex));
          t1 = of_int baseT;
          t2 = of_int baseT + 1 / 2;
          overlap1 = (isNoAtHour medicA \<and> isNoAtHour reserveA);
          overlap2 = (isNoAtHour medicB \<and> isNoAtHour reserveB)
      in [\<lparr>t = t1, rangeLabel = formatHalfRange t1,
            homeKey = homeA, medicKey = medicA, reserveKey = reserveA,
            home = statusToLevel homeA, medic = statusToLevel medicA,
            reserve = statusToLevel reserveA, overlapNo = overlap1\<rparr>,
          \<lparr>t = t2, rangeLabel = formatHalfRange t2,
            homeKey = homeB, medicKey = medicB, reserveKey = reserveB,
            home = statusToLevel homeB, medic = statusToLevel medicB,
            reserve = statusToLevel reserveB, overlapNo = overlap2\<rparr>])"

function chartLoop :: "jsval \<Rightarrow> jsval \<Rightarrow> jsval \<Rightarrow> int \<Rightarrow> row list \<Rightarrow> row list" where
  "chartLoop homeG medicG reserveG hourIndex rows =
     (if hourIndex \<le> 24
      then chartLoop homeG medicG reserveG (hourIndex + 1)
             (rows @ hourRows homeG medicG reserveG hourIndex)
      else rows)"
  by pat_completeness auto
termination
  by (relation "measure (\<lambda>(homeG, medicG, reserveG, hourIndex, rows). nat (25 - hourIndex))") auto

declare chartLoop.simps [simp del]

text \<open>\<open>today\<close> is truthy where its groups are read, so never nullish.\<close>

definition chartData :: "jsval \<Rightarrow> row list" where
  "chartData today =
     (if \<not> truthy today then []
      else let homeG = orNull (optMember today (GROUPS ! 0));
               medicG = orNull (optMember today (GROUPS ! 1));
               reserveG = orNull (optMember today (GROUPS ! 2))
           in chartLoop homeG medicG reserveG 1 [])"

subsection \<open>Whether a group has any outage\<close>

text \<open>The inner loop of \<open>groupHasOutages\<close>, leaving at the first outage; its value is \<open>has\<close>.\<close>

function outageLoop :: "jsval \<Rightarrow> int \<Rightarrow> bool" where
  "outageLoop groupV hourIndex =
     (if hourIndex \<le> 24
      then (let (a, b) = expandHourToHalves (optMember groupV (showInt hourIndex))
            in if isOutageKey a \<or> isOutageKey b then True
               else outageLoop groupV (hourIndex + 1))
      else False)"
  by pat_completeness auto
termination
  by (relation "measure (\<lambda>(groupV, hourIndex). nat (25 - hourIndex))") auto

declare outageLoop.simps [simp del]

text \<open>The result object, as the list of its entries in the order of \<open>GROUPS\<close>.\<close>

definition groupHasOutages :: "jsval \<Rightarrow> (string \<times> bool) list" where
  "groupHasOutages today =
     (if \<not> truthy today
      then [(GROUPS ! 0, False), (GROUPS ! 1, False), (GROUPS ! 2, False)]
      else map (\<lambda>g. (g, outageLoop (optMember today g) 1)) GROUPS)"

section \<open>Interval extraction\<close>

text \<open>
  Both extractors run the same loop over the rows, with the open interval's start
  (\<open>null\<close> is \<open>None\<close>) and the intervals pushed so far as its state.
\<close>

fun noScan :: "(row \<Rightarrow> jsval) \<Rightarrow> row list \<Rightarrow> real option \<Rightarrow> (real \<times> real) list
    \<Rightarrow> real option \<times> (real \<times> real) list" where
  "noScan pickKey [] startT intervals = (startT, intervals)"
| "noScan pickKey (r # rows) startT intervals =
     (let key = pickKey r;
          isNo = isNoAtHour key;
          startT1 = (if isNo \<and> startT = None then Some (t r) else startT)
      in case startT1 of
           None \<Rightarrow> noScan pickKey rows startT1 intervals
         | Some s \<Rightarrow>
             if \<not> isNo then noScan pickKey rows None (intervals @ [(s, t r)])
             else noScan pickKey rows startT1 intervals)"

text \<open>The value of \<open>intervals.filter(([a, b]) => b > a)\<close>.\<close>

definition noIntervals :: "row list \<Rightarrow> (row \<Rightarrow> jsval) \<Rightarrow> (real \<times> real) list" where
  "noIntervals rows pickKey =
     (if rows = [] then []
      else let (startT, intervals) = noScan pickKey rows None [];
               intervals1 = (case startT of None \<Rightarrow> intervals | Some s \<Rightarrow> intervals @ [(s, 24)])
           in filter (\<lambda>(a, b). b > a) intervals1)"

definition getNoIntervalsFromRows :: "row list \<Rightarrow> (row \<Rightarrow> jsval) \<Rightarrow> string list" where
  "getNoIntervalsFromRows rows pickKey = map formatInterval (noIntervals rows pickKey)"

fun boolScan :: "(row \<Rightarrow> jsval) \<Rightarrow> row list \<Rightarrow> real option \<Rightarrow> (real \<times> real) list
    \<Rightarrow> real option \<times> (real \<times> real) list" where
  "boolScan pickBool [] startT intervals = (startT, intervals)"
| "boolScan pickBool (r # rows) startT intervals =
     (let on = truthy (pickBool r);
          startT1 = (if on \<and> startT = None then Some (t r) else startT)
      in case startT1 of
           None \<Rightarrow> boolScan pickBool rows startT1 intervals
         | Some s \<Rightarrow>
             if \<not> on then boolScan pickBool rows None (intervals @ [(s, t r)])
             else boolScan pickBool rows startT1 intervals)"

definition boolIntervals :: "row list \<Rightarrow> (row \<Rightarrow> jsval) \<Rightarrow> (real \<times> real) list" where
  "boolIntervals rows pickBool =
     (if rows = [] then []
      else let (startT, intervals) = boolScan pickBool rows None [];
               intervals1 = (case startT of None \<Rightarrow> intervals | Some s \<Rightarrow> intervals @ [(s, 24)])
           in filter (\<lambda>(a, b). b > a) intervals1)"

definition getBoolIntervalsFromRows :: "row list \<Rightarrow> (row \<Rightarrow> jsval) \<Rightarrow> string list" where
  "getBoolIntervalsFromRows rows pickBool = map formatInterval (boolIntervals rows pickBool)"

record outage_lines =
  home_lines :: "string list"
  medic_lines :: "string list"
  reserve_lines :: "string list"
  overlap_lines :: "string list"

definition outageLines :: "row list \<Rightarrow> outage_lines" where
  "outageLines chartRows =
     (if chartRows = []
      then \<lparr>home_lines = [], medic_lines = [], reserve_lines = [], overlap_lines = []\<rparr>
      else \<lparr>home_lines = getNoIntervalsFromRows chartRows (\<lambda>r. homeKey r),
            medic_lines = getNoIntervalsFromRows chartRows (\<lambda>r. medicKey r),
            reserve_lines = getNoIntervalsFromRows chartRows (\<lambda>r. reserveKey r),
            overlap_lines = getBoolIntervalsFromRows chartRows (\<lambda>r. JBool (overlapNo r))\<rparr>)"

section \<open>Transition ticks\<close>

text \<open>\<open>Set.add\<close> on the set's elements in insertion order.\<close>

definition setAdd :: "real \<Rightarrow> real list \<Rightarrow> real list" where
  "setAdd x ticks = (if x \<in> set ticks then ticks else ticks @ [x])"

text \<open>The loop over \<open>i = 2 .. length\<close>, with \<open>prev = chartData[i - 2]\<close> and
  \<open>curr = chartData[i - 1]\<close>.\<close>

fun ticksLoop :: "row list \<Rightarrow> real list \<Rightarrow> real list" where
  "ticksLoop (prevRow # currRow # rows) ticks =
     (let ticks1 = (if medicKey prevRow \<noteq> medicKey currRow then setAdd (t currRow) ticks else ticks);
          ticks2 = (if reserveKey prevRow \<noteq> reserveKey currRow then setAdd (t currRow) ticks1 else ticks1);
          ticks3 = (if overlapNo prevRow \<noteq> overlapNo currRow then setAdd (t currRow) ticks2 else ticks2)
      in ticksLoop (currRow # rows) ticks3)"
| "ticksLoop shortRows ticks = ticks"

definition transitionTicks :: "row list \<Rightarrow> real list" where
  "transitionTicks chartRows =
     (if chartRows = [] then [0, 24] else sort (ticksLoop chartRows [0, 24]))"

section \<open>The memo chain of the component\<close>



section \<open>Vocabulary of the specification\<close>

text \<open>Whether hour slot \<open>h\<close> of a group shows an outage in either expanded half: the test
  of one iteration of \<open>outageLoop\<close>.\<close>

definition hourOutage :: "jsval \<Rightarrow> int \<Rightarrow> bool" where
  "hourOutage g h =
     (isOutageKey (fst (expandHourToHalves (optMember g (showInt h))))
      \<or> isOutageKey (snd (expandHourToHalves (optMember g (showInt h)))))"

text \<open>The status keys a half-hour point may carry.\<close>

definition halfHourKeys :: "jsval set" where
  "halfHourKeys = {JStr ''yes'', JStr ''no'', JStr ''maybe''}"

subsection \<open>Interval extraction as the specification words it\<close>

text \<open>
  A point is a time coordinate with the value of the predicate there. Reading the points in
  order: an interval opens at the first point where the predicate holds, closes at the
  first later point where it does not, and the reading goes on after that point; an
  interval still open after the last point closes at 24.
\<close>

function extractSpec :: "(real \<times> bool) list \<Rightarrow> (real \<times> real) list" where
  "extractSpec [] = []"
| "extractSpec ((x, on) # pts) =
     (if on
      then (case dropWhile snd pts of
              [] \<Rightarrow> [(x, 24)]
            | (y, off) # rest \<Rightarrow> (x, y) # extractSpec rest)
      else extractSpec pts)"
  by pat_completeness auto
termination
proof (relation "measure length")
  show "wf (measure length)" by simp
next
  fix x :: real and on :: bool and pts :: "(real \<times> bool) list" and a rest
  assume "dropWhile snd pts = a # rest"
  then have "length (a # rest) \<le> length pts"
    by (metis length_dropWhile_le)
  then show "(rest, (x, on) # pts) \<in> measure length" by simp
next
  fix x :: real and on :: bool and pts :: "(real \<times> bool) list"
  show "(pts, (x, on) # pts) \<in> measure length" by simp
qed

definition points :: "(row \<Rightarrow> bool) \<Rightarrow> row list \<Rightarrow> (real \<times> bool) list" where
  "points p rows = map (\<lambda>r. (t r, p r)) rows"

text \<open>Only intervals of strictly positive duration are emitted.\<close>

definition positive :: "(real \<times> real) list \<Rightarrow> (real \<times> real) list" where
  "positive ivs = filter (\<lambda>(a, b). a < b) ivs"

text \<open>A time coordinate lies in one of the half-open intervals.\<close>

definition covered :: "(real \<times> real) list \<Rightarrow> real \<Rightarrow> bool" where
  "covered ivs x = (\<exists>(a, b)\<in>set ivs. a \<le> x \<and> x < b)"

text \<open>The common shape of \<open>noScan\<close> and \<open>boolScan\<close>, over any predicate, and what the code
  does with the final state of the loop.\<close>

fun scanP :: "(row \<Rightarrow> bool) \<Rightarrow> row list \<Rightarrow> real option \<Rightarrow> (real \<times> real) list
    \<Rightarrow> real option \<times> (real \<times> real) list" where
  "scanP p [] startT intervals = (startT, intervals)"
| "scanP p (r # rows) startT intervals =
     (if p r then scanP p rows (if startT = None then Some (t r) else startT) intervals
      else case startT of
             None \<Rightarrow> scanP p rows None intervals
           | Some s \<Rightarrow> scanP p rows None (intervals @ [(s, t r)]))"

fun closeOpen :: "real option \<times> (real \<times> real) list \<Rightarrow> (real \<times> real) list" where
  "closeOpen (None, intervals) = intervals"
| "closeOpen (Some s, intervals) = intervals @ [(s, 24)]"

text \<open>The intervals still to come when an interval opened at \<open>s\<close> is pending.\<close>

fun openTail :: "real \<Rightarrow> (real \<times> bool) list \<Rightarrow> (real \<times> real) list" where
  "openTail s pts =
     (case dropWhile snd pts of [] \<Rightarrow> [(s, 24)] | (y, off) # rest \<Rightarrow> (s, y) # extractSpec rest)"

text \<open>The properties an interval list is to have: positive durations, ascending starts,
  no two intervals sharing a time, and a gap between neighbours, so that no two of them
  can be merged.\<close>

definition positiveDuration :: "(real \<times> real) list \<Rightarrow> bool" where
  "positiveDuration ivs = (\<forall>(a, b)\<in>set ivs. a < b)"

definition ascendingStarts :: "(real \<times> real) list \<Rightarrow> bool" where
  "ascendingStarts ivs = sorted_wrt (<) (map fst ivs)"

definition nonOverlapping :: "(real \<times> real) list \<Rightarrow> bool" where
  "nonOverlapping ivs =
     (\<forall>i<length ivs. \<forall>j<length ivs. i \<noteq> j \<longrightarrow>
        {fst (ivs ! i)..<snd (ivs ! i)} \<inter> {fst (ivs ! j)..<snd (ivs ! j)} = {})"

definition unmergeable :: "(real \<times> real) list \<Rightarrow> bool" where
  "unmergeable ivs = (\<forall>i. Suc i < length ivs \<longrightarrow> snd (ivs ! i) < fst (ivs ! Suc i))"

definition wellFormedIntervals :: "(real \<times> real) list \<Rightarrow> bool" where
  "wellFormedIntervals ivs =
     (positiveDuration ivs \<and> ascendingStarts ivs \<and> nonOverlapping ivs \<and> unmergeable ivs)"

text \<open>The intervals are the runs of the predicate: they cover exactly the points where it
  holds, each starts at such a point, and each ends at 24 or at a point where it does not
  hold.\<close>

definition runsOf :: "(row \<Rightarrow> bool) \<Rightarrow> row list \<Rightarrow> (real \<times> real) list \<Rightarrow> bool" where
  "runsOf p rows ivs =
     ((\<forall>r\<in>set rows. covered ivs (t r) = p r)
      \<and> (\<forall>(a, b)\<in>set ivs.
            (\<exists>r\<in>set rows. t r = a \<and> p r) \<and> (b = 24 \<or> (\<exists>r\<in>set rows. t r = b \<and> \<not> p r))))"

subsection \<open>The timeline and its signals\<close>

text \<open>The 48 time coordinates 0, 0.5, ..., 23.5.\<close>

definition timelineT :: "real list" where
  "timelineT = concat (map (\<lambda>h. [of_int (h - 1), of_int (h - 1) + 1 / 2]) [1..24])"

text \<open>The expanded status of a group at a time coordinate: the first half of hour slot
  \<open>\<lfloor>x\<rfloor> + 1\<close> on the hour, the second half otherwise.\<close>

definition halfStatus :: "jsval \<Rightarrow> real \<Rightarrow> jsval" where
  "halfStatus groupV x =
     (if x = of_int \<lfloor>x\<rfloor>
      then fst (expandHourToHalves (optMember groupV (showInt (\<lfloor>x\<rfloor> + 1))))
      else snd (expandHourToHalves (optMember groupV (showInt (\<lfloor>x\<rfloor> + 1)))))"

text \<open>The tracked signals of two neighbouring points differ.\<close>

definition signalsDiffer :: "row \<Rightarrow> row \<Rightarrow> bool" where
  "signalsDiffer a b =
     (medicKey a \<noteq> medicKey b \<or> reserveKey a \<noteq> reserveKey b \<or> overlapNo a \<noteq> overlapNo b)"

text \<open>What the tick positions are computed from.\<close>

definition tickSignals :: "row \<Rightarrow> real \<times> jsval \<times> jsval \<times> bool" where
  "tickSignals r = (t r, medicKey r, reserveKey r, overlapNo r)"

text \<open>The signals of the two rows of hour slot \<open>h\<close>, from the medic and reserve groups.\<close>

definition hourSignals :: "jsval \<Rightarrow> jsval \<Rightarrow> int \<Rightarrow> (real \<times> jsval \<times> jsval \<times> bool) list" where
  "hourSignals mg rg h =
     [(of_int (h - 1),
       fst (expandHourToHalves (optMember mg (showInt h))),
       fst (expandHourToHalves (optMember rg (showInt h))),
       fst (expandHourToHalves (optMember mg (showInt h))) = JStr ''no''
       \<and> fst (expandHourToHalves (optMember rg (showInt h))) = JStr ''no''),
      (of_int (h - 1) + 1 / 2,
       snd (expandHourToHalves (optMember mg (showInt h))),
       snd (expandHourToHalves (optMember rg (showInt h))),
       snd (expandHourToHalves (optMember mg (showInt h))) = JStr ''no''
       \<and> snd (expandHourToHalves (optMember rg (showInt h))) = JStr ''no'')]"

text \<open>Flattening an interval list back to points: the timeline whose overlap flag holds
  exactly at the points the intervals cover.\<close>

definition flatten :: "(real \<times> real) list \<Rightarrow> row list \<Rightarrow> row list" where
  "flatten ivs rows = map (\<lambda>r. r\<lparr>overlapNo := covered ivs (t r)\<rparr>) rows"

text \<open>The times of the points whose tracked signals differ from the point just before.\<close>

definition changeTimes :: "row list \<Rightarrow> real set" where
  "changeTimes rows =
     {t (rows ! i) | i. 0 < i \<and> i < length rows \<and> signalsDiffer (rows ! (i - 1)) (rows ! i)}"

subsection \<open>Sample payloads\<close>

text \<open>A day with the home group available and the medic group out in the first half of
  hour slot 2; the reserve group is missing.\<close>

definition todayA :: jsval where
  "todayA = JObj [(''GPV1.1'', JObj [(''1'', JStr ''yes''), (''2'', JStr ''yes'')]),
                  (''GPV2.1'', JObj [(''1'', JStr ''yes''), (''2'', JStr ''first'')])]"



text \<open>The same pointer with a map of days to read from.\<close>

definition dataBadPointer :: jsval where
  "dataBadPointer =
     JObj [(''fact'', JObj [(''today'', JObj [(''toString'', JNum ''1'')]), (''data'', JObj [])])]"

text \<open>A payload whose today pointer has its entry, and one whose pointer names a day the
  map has no entry for.\<close>

definition dataToday :: jsval where
  "dataToday = JObj [(''fact'', JObj [(''today'', JNum ''1735682400''),
                                      (''data'', JObj [(''1735682400'', todayA)])])]"

definition dataStale :: jsval where
  "dataStale = JObj [(''fact'', JObj [(''today'', JNum ''1735682400''),
                                      (''data'', JObj [(''1735596000'', todayA)])])]"

text \<open>A payload whose today pointer names a member every object inherits, and a fragment
  of an engine's library with that member.\<close>

definition dataConstructor :: jsval where
  "dataConstructor =
     JObj [(''fact'', JObj [(''today'', JStr ''constructor''), (''data'', JObj [])])]"

definition sampleLibrary :: "jsval \<Rightarrow> string \<Rightarrow> jsval option" where
  "sampleLibrary v k =
     (case v of
        JObj kvs \<Rightarrow>
          if k = ''constructor'' then Some (JBuiltin ''function Object() { [native code] }'')
          else None
      | _ \<Rightarrow> None)"

text \<open>A day with the medic group out in hour slots 3 to 5 and 11, and the reserve group
  out in the second half of slot 5, in slot 11 and in the first half of slot 12.\<close>

definition todayB :: jsval where
  "todayB = JObj [(''GPV1.1'', JObj [(''5'', JStr ''first'')]),
                  (''GPV2.1'', JObj [(''3'', JStr ''no''), (''4'', JStr ''no''),
                                     (''5'', JStr ''no''), (''11'', JStr ''no'')]),
                  (''GPV5.1'', JObj [(''5'', JStr ''second''), (''11'', JStr ''no''),
                                     (''12'', JStr ''first'')])]"

text \<open>The same day with another schedule for the home group.\<close>

definition todayC :: jsval where
  "todayC = JObj [(''GPV1.1'', JObj [(''1'', JStr ''no''), (''2'', JStr ''no'')]),
                  (''GPV2.1'', JObj [(''3'', JStr ''no''), (''4'', JStr ''no''),
                                     (''5'', JStr ''no''), (''11'', JStr ''no'')]),
                  (''GPV5.1'', JObj [(''5'', JStr ''second''), (''11'', JStr ''no''),
                                     (''12'', JStr ''first'')])]"

text \<open>A row with one status key for the three groups.\<close>

definition sampleRow :: "real \<Rightarrow> string \<Rightarrow> bool \<Rightarrow> row" where
  "sampleRow x k b =
     \<lparr>t = x, rangeLabel = formatHalfRange x,
      homeKey = JStr k, medicKey = JStr k, reserveKey = JStr k,
      home = statusToLevel (JStr k), medic = statusToLevel (JStr k),
      reserve = statusToLevel (JStr k), overlapNo = b\<rparr>"

definition sampleRows :: "row list" where
  "sampleRows = [sampleRow 0 ''no'' True, sampleRow (1 / 2) ''no'' True,
                 sampleRow 1 ''yes'' False, sampleRow (3 / 2) ''no'' True]"

text \<open>A row carrying given signals and nothing else.\<close>

definition rowOfSignals :: "real \<times> jsval \<times> jsval \<times> bool \<Rightarrow> row" where
  "rowOfSignals s =
     \<lparr>t = fst s, rangeLabel = [],
      homeKey = JUndefined, medicKey = fst (snd s), reserveKey = fst (snd (snd s)),
      home = 0, medic = 0, reserve = 0, overlapNo = snd (snd (snd s))\<rparr>"

text \<open>The five canonical status keys of the data model.\<close>

definition canonicalKeys :: "jsval set" where
  "canonicalKeys = {JStr ''yes'', JStr ''no'', JStr ''maybe'', JStr ''first'', JStr ''second''}"

section \<open>Normalisation and expansion\<close>

lemma normalizeStatusKey_canonical: "normalizeStatusKey v \<in> canonicalKeys"
  by (simp add: normalizeStatusKey_def canonicalKeys_def STATUS_ORDER_def)

lemma normalizeStatusKey_id: "v \<in> canonicalKeys \<Longrightarrow> normalizeStatusKey v = v"
  by (auto simp: normalizeStatusKey_def canonicalKeys_def STATUS_ORDER_def)

lemma normalizeStatusKey_other: "v \<notin> canonicalKeys \<Longrightarrow> normalizeStatusKey v = JStr ''maybe''"
  by (auto simp: normalizeStatusKey_def canonicalKeys_def STATUS_ORDER_def)

text \<open>
  C7. Normalisation is total: every value is sent to one of the five canonical keys, a
  canonical key to itself, and every other value (undefined, null and the other falsy
  values among them) to \<open>maybe\<close>.
\<close>

theorem normalizeStatusKey_total:
  "normalizeStatusKey v \<in> canonicalKeys
   \<and> (v \<notin> canonicalKeys \<longrightarrow> normalizeStatusKey v = JStr ''maybe'')
   \<and> (\<not> truthy v \<longrightarrow> normalizeStatusKey v = JStr ''maybe'')
   \<and> (v \<in> canonicalKeys \<longrightarrow> normalizeStatusKey v = v)"
  by (auto simp: normalizeStatusKey_def canonicalKeys_def STATUS_ORDER_def)

theorem normalizeStatusKey_total_witness:
  "normalizeStatusKey (JStr ''first'') = JStr ''first''
   \<and> normalizeStatusKey (JStr ''No'') = JStr ''maybe''
   \<and> normalizeStatusKey JUndefined = JStr ''maybe''
   \<and> normalizeStatusKey JNull = JStr ''maybe''
   \<and> normalizeStatusKey (JNum ''0'') = JStr ''maybe''
   \<and> normalizeStatusKey (JStr '''') = JStr ''maybe''"
  using normalizeStatusKey_total [of "JStr ''first''"] normalizeStatusKey_total [of "JStr ''No''"]
    normalizeStatusKey_total [of JUndefined] normalizeStatusKey_total [of JNull]
    normalizeStatusKey_total [of "JNum ''0''"] normalizeStatusKey_total [of "JStr ''''"]
  by (simp add: canonicalKeys_def)

text \<open>
  C2. Expansion follows the table: \<open>first\<close> gives (no, yes), \<open>second\<close> gives (yes, no),
  \<open>yes\<close> gives (yes, yes), \<open>no\<close> gives (no, no) and every other value gives
  (maybe, maybe); so both halves are always among yes, no and maybe, never \<open>first\<close> or
  \<open>second\<close>.
\<close>

theorem expandHourToHalves_table:
  "expandHourToHalves (JStr ''first'') = (JStr ''no'', JStr ''yes'')
   \<and> expandHourToHalves (JStr ''second'') = (JStr ''yes'', JStr ''no'')
   \<and> expandHourToHalves (JStr ''yes'') = (JStr ''yes'', JStr ''yes'')
   \<and> expandHourToHalves (JStr ''no'') = (JStr ''no'', JStr ''no'')
   \<and> (v \<notin> {JStr ''first'', JStr ''second'', JStr ''yes'', JStr ''no''}
        \<longrightarrow> expandHourToHalves v = (JStr ''maybe'', JStr ''maybe''))
   \<and> fst (expandHourToHalves v) \<in> halfHourKeys
   \<and> snd (expandHourToHalves v) \<in> halfHourKeys
   \<and> fst (expandHourToHalves v) \<notin> {JStr ''first'', JStr ''second''}
   \<and> snd (expandHourToHalves v) \<notin> {JStr ''first'', JStr ''second''}"
  by (simp add: expandHourToHalves_def normalizeStatusKey_def STATUS_ORDER_def halfHourKeys_def
      Let_def)

theorem expandHourToHalves_table_witness:
  "expandHourToHalves (JStr ''maybe'') = (JStr ''maybe'', JStr ''maybe'')
   \<and> expandHourToHalves JUndefined = (JStr ''maybe'', JStr ''maybe'')
   \<and> expandHourToHalves (JStr ''FIRST'') = (JStr ''maybe'', JStr ''maybe'')
   \<and> expandHourToHalves (JNum ''1'') = (JStr ''maybe'', JStr ''maybe'')"
  using expandHourToHalves_table [of "JStr ''maybe''"] expandHourToHalves_table [of JUndefined]
    expandHourToHalves_table [of "JStr ''FIRST''"] expandHourToHalves_table [of "JNum ''1''"]
  by simp

section \<open>The loops in closed form\<close>

lemma chartLoop_eq:
  "chartLoop hg mg rg i rows = rows @ concat (map (hourRows hg mg rg) [i..24])"
proof (induction hg mg rg i rows rule: chartLoop.induct)
  case (1 hg mg rg i rows)
  show ?case
  proof (cases "i \<le> 24")
    case True
    then have "[i..24] = i # [i + 1..24]"
      by (simp add: upto_rec1)
    with True 1 show ?thesis
      by (simp add: chartLoop.simps [of hg mg rg i rows])
  next
    case False
    then show ?thesis
      by (simp add: chartLoop.simps [of hg mg rg i rows])
  qed
qed

lemma outageLoop_eq: "outageLoop g i = (\<exists>h\<in>{i..24}. hourOutage g h)"
proof (induction g i rule: outageLoop.induct)
  case (1 g i)
  show ?case
  proof (cases "i \<le> 24")
    case le: True
    show ?thesis
    proof (cases "hourOutage g i")
      case True
      with le show ?thesis
        by (subst outageLoop.simps) (auto simp: hourOutage_def split: prod.splits)
    next
      case False
      with le have "outageLoop g i = outageLoop g (i + 1)"
        by (subst outageLoop.simps) (auto simp: hourOutage_def split: prod.splits)
      also have "\<dots> = (\<exists>h\<in>{i + 1..24}. hourOutage g h)"
        using 1 [OF le refl prod.collapse] False by (simp add: hourOutage_def)
      also have "\<dots> = (\<exists>h\<in>{i..24}. hourOutage g h)"
      proof -
        have "{i..24} = insert i {i + 1..24}" using le by auto
        with False show ?thesis by simp
      qed
      finally show ?thesis .
    qed
  next
    case False
    then show ?thesis
      by (subst outageLoop.simps) simp
  qed
qed

lemma isOutageKey_expand:
  "(isOutageKey (fst (expandHourToHalves v)) \<or> isOutageKey (snd (expandHourToHalves v)))
   = isOutageKey v"
  by (simp add: isOutageKey_def expandHourToHalves_def normalizeStatusKey_def STATUS_ORDER_def Let_def)

lemma optMember_orNull: "optMember (orNull v) k = optMember v k"
  by (cases v) (simp_all add: orNull_def)

lemma map_of_groupHasOutages:
  "truthy today \<Longrightarrow> g \<in> set GROUPS
   \<Longrightarrow> map_of (groupHasOutages today) g = Some (outageLoop (optMember today g) 1)"
  by (auto simp: groupHasOutages_def GROUPS_def)

lemma hourOutage_raw: "hourOutage g h = isOutageKey (optMember g (showInt h))"
  by (simp add: hourOutage_def isOutageKey_expand)

lemma outageLoop_nullish: "nullish g \<Longrightarrow> \<not> outageLoop g i"
  by (cases g) (simp_all add: outageLoop_eq hourOutage_raw isOutageKey_def
      normalizeStatusKey_def)

section \<open>Whether a group has any outage\<close>

text \<open>
  C4. With today data, the flag computed for a group is true exactly when some hour slot
  1..24 of the group is an outage key at hour level, that is normalises to \<open>no\<close>,
  \<open>first\<close> or \<open>second\<close>; an hour-level key is an outage exactly when one of its two
  expanded halves is; the result object holds this flag for each configured group; and a
  group missing from the snapshot gets false.
\<close>

theorem groupHasOutages_iff:
  assumes "truthy today"
  shows "outageLoop (optMember today g) 1
           = (\<exists>h\<in>{1..24}. isOutageKey (optMember (optMember today g) (showInt h)))
     \<and> (g \<in> set GROUPS
          \<longrightarrow> map_of (groupHasOutages today) g = Some (outageLoop (optMember today g) 1))
     \<and> isOutageKey v = (normalizeStatusKey v \<in> {JStr ''no'', JStr ''first'', JStr ''second''})
     \<and> isOutageKey v
           = (isOutageKey (fst (expandHourToHalves v)) \<or> isOutageKey (snd (expandHourToHalves v)))
     \<and> (nullish (optMember today g) \<longrightarrow> \<not> outageLoop (optMember today g) 1)"
proof (intro conjI impI)
  show "outageLoop (optMember today g) 1
          = (\<exists>h\<in>{1..24}. isOutageKey (optMember (optMember today g) (showInt h)))"
    by (simp add: outageLoop_eq hourOutage_raw)
  show "map_of (groupHasOutages today) g = Some (outageLoop (optMember today g) 1)"
    if "g \<in> set GROUPS"
    using assms that by (rule map_of_groupHasOutages)
  show "isOutageKey v = (normalizeStatusKey v \<in> {JStr ''no'', JStr ''first'', JStr ''second''})"
    by (simp add: isOutageKey_def Let_def)
  show "isOutageKey v
          = (isOutageKey (fst (expandHourToHalves v)) \<or> isOutageKey (snd (expandHourToHalves v)))"
    by (simp add: isOutageKey_expand)
  show "\<not> outageLoop (optMember today g) 1" if "nullish (optMember today g)"
    using that by (rule outageLoop_nullish)
qed

lemmas evalKeys = showInt_def showNat.simps digitChar_def expandHourToHalves_def
  isOutageKey_def normalizeStatusKey_def STATUS_ORDER_def

theorem groupHasOutages_iff_witness:
  "truthy todayA \<and> ''GPV2.1'' \<in> set GROUPS
   \<and> map_of (groupHasOutages todayA) ''GPV2.1'' = Some True
   \<and> (\<exists>h\<in>{1..24}. isOutageKey (optMember (optMember todayA ''GPV2.1'') (showInt h)))
   \<and> nullish (optMember todayA ''GPV5.1'')
   \<and> map_of (groupHasOutages todayA) ''GPV5.1'' = Some False"
proof -
  have tr: "truthy todayA"
    by (simp add: todayA_def)
  have "hourOutage (optMember todayA ''GPV2.1'') 2"
    by (simp add: todayA_def hourOutage_def evalKeys)
  then have l2: "outageLoop (optMember todayA ''GPV2.1'') 1"
    unfolding outageLoop_eq by (rule rev_bexI [where x = 2, rotated]) simp
  have n5: "nullish (optMember todayA ''GPV5.1'')"
    by (simp add: todayA_def)
  have g2: "''GPV2.1'' \<in> set GROUPS" and g5: "''GPV5.1'' \<in> set GROUPS"
    by (simp_all add: GROUPS_def)
  note th2 = groupHasOutages_iff [OF tr, of "''GPV2.1''" JNull]
  note th5 = groupHasOutages_iff [OF tr, of "''GPV5.1''" JNull]
  from th2 have "''GPV2.1'' \<in> set GROUPS
      \<longrightarrow> map_of (groupHasOutages todayA) ''GPV2.1'' = Some (outageLoop (optMember todayA ''GPV2.1'') 1)"
    by (elim conjE)
  with g2 l2 have c3: "map_of (groupHasOutages todayA) ''GPV2.1'' = Some True"
    by simp
  from th2 [THEN conjunct1, THEN iffD1, OF l2]
  have c4: "\<exists>h\<in>{1..24}. isOutageKey (optMember (optMember todayA ''GPV2.1'') (showInt h))" .
  from th5 have "nullish (optMember todayA ''GPV5.1'') \<longrightarrow> \<not> outageLoop (optMember todayA ''GPV5.1'') 1"
    by (elim conjE)
  moreover from th5 have "''GPV5.1'' \<in> set GROUPS
      \<longrightarrow> map_of (groupHasOutages todayA) ''GPV5.1'' = Some (outageLoop (optMember todayA ''GPV5.1'') 1)"
    by (elim conjE)
  ultimately have c6: "map_of (groupHasOutages todayA) ''GPV5.1'' = Some False"
    using n5 g5 by simp
  from tr g2 c3 c4 n5 c6 show ?thesis
    by (intro conjI)
qed


section \<open>Evaluation rules\<close>

text \<open>Unfolded forms of the definitions, for computing on concrete payloads.\<close>

lemma showNat_small: "n < 10 \<Longrightarrow> showNat n = [digitChar n]"
  by (simp add: showNat.simps)

lemma showNat_big: "10 \<le> n \<Longrightarrow> showNat n = showNat (n div 10) @ [digitChar (n mod 10)]"
  by (subst showNat.simps) simp

lemma pad2_unfold: "pad2 v = replicate (2 - length (showInt v)) CHR ''0'' @ showInt v"
  by (simp add: pad2_def Let_def)

lemma formatHalfHour_unfold:
  "formatHalfHour x = pad2 \<lfloor>x\<rfloor> @ '':'' @ pad2 (if rem1 x = 1 / 2 then 30 else 0)"
  by (simp add: formatHalfHour_def)

lemma formatHalfRange_unfold:
  "formatHalfRange x = formatHalfHour x @ ''-'' @ formatHalfHour (x + 1 / 2)"
  by (simp add: formatHalfRange_def)

lemmas evalString = showInt_def showNat_small showNat_big digitChar_def pad2_unfold
  formatHalfHour_unfold formatHalfRange_unfold rem1_def formatInterval_def

lemma hourRows_unfold:
  "hourRows hg mg rg h =
    [\<lparr>t = of_int (h - 1), rangeLabel = formatHalfRange (of_int (h - 1)),
      homeKey = fst (expandHourToHalves (optMember hg (showInt h))),
      medicKey = fst (expandHourToHalves (optMember mg (showInt h))),
      reserveKey = fst (expandHourToHalves (optMember rg (showInt h))),
      home = statusToLevel (fst (expandHourToHalves (optMember hg (showInt h)))),
      medic = statusToLevel (fst (expandHourToHalves (optMember mg (showInt h)))),
      reserve = statusToLevel (fst (expandHourToHalves (optMember rg (showInt h)))),
      overlapNo = (isNoAtHour (fst (expandHourToHalves (optMember mg (showInt h))))
                   \<and> isNoAtHour (fst (expandHourToHalves (optMember rg (showInt h)))))\<rparr>,
     \<lparr>t = of_int (h - 1) + 1 / 2, rangeLabel = formatHalfRange (of_int (h - 1) + 1 / 2),
      homeKey = snd (expandHourToHalves (optMember hg (showInt h))),
      medicKey = snd (expandHourToHalves (optMember mg (showInt h))),
      reserveKey = snd (expandHourToHalves (optMember rg (showInt h))),
      home = statusToLevel (snd (expandHourToHalves (optMember hg (showInt h)))),
      medic = statusToLevel (snd (expandHourToHalves (optMember mg (showInt h)))),
      reserve = statusToLevel (snd (expandHourToHalves (optMember rg (showInt h)))),
      overlapNo = (isNoAtHour (snd (expandHourToHalves (optMember mg (showInt h))))
                   \<and> isNoAtHour (snd (expandHourToHalves (optMember rg (showInt h)))))\<rparr>]"
  by (simp add: hourRows_def Let_def split: prod.splits)

lemma statusToLevel_unfold:
  "statusToLevel k =
     (if normalizeStatusKey k = JStr ''yes'' then 2
      else if normalizeStatusKey k = JStr ''maybe'' then 1
      else if normalizeStatusKey k = JStr ''no'' then 0 else 1)"
  by (simp add: statusToLevel_def Let_def)

lemma expand_unfold:
  "expandHourToHalves v =
     (if normalizeStatusKey v = JStr ''first'' then (JStr ''no'', JStr ''yes'')
      else if normalizeStatusKey v = JStr ''second'' then (JStr ''yes'', JStr ''no'')
      else if normalizeStatusKey v = JStr ''yes'' then (JStr ''yes'', JStr ''yes'')
      else if normalizeStatusKey v = JStr ''no'' then (JStr ''no'', JStr ''no'')
      else (JStr ''maybe'', JStr ''maybe''))"
  by (simp add: expandHourToHalves_def Let_def)

lemma hours24:
  "[1..24] = [1, 2, 3, 4, 5, 6, 7, 8, 9, 10, 11, 12, 13, 14, 15, 16, 17, 18, 19, 20, 21, 22, 23, 24]"
  by (simp add: upto_rec1)

lemma chartData_truthy:
  "truthy today \<Longrightarrow>
   chartData today
     = concat (map (hourRows (orNull (optMember today ''GPV1.1''))
                      (orNull (optMember today ''GPV2.1''))
                      (orNull (optMember today ''GPV5.1''))) [1..24])"
  by (simp add: chartData_def chartLoop_eq GROUPS_def)

lemmas evalRows = chartData_truthy hours24 hourRows_unfold orNull_def evalString expand_unfold
  statusToLevel_unfold isNoAtHour_def normalizeStatusKey_def STATUS_ORDER_def

section \<open>The scan refines the specification's extraction\<close>

lemma noScan_scanP: "noScan pickKey rows st ivs = scanP (\<lambda>r. isNoAtHour (pickKey r)) rows st ivs"
  by (induction rows arbitrary: st ivs) (auto simp: Let_def split: option.splits)

lemma boolScan_scanP: "boolScan pickBool rows st ivs = scanP (\<lambda>r. truthy (pickBool r)) rows st ivs"
  by (induction rows arbitrary: st ivs) (auto simp: Let_def split: option.splits)

lemma scanP_spec:
  "closeOpen (scanP p rows None ivs) = ivs @ extractSpec (points p rows)"
  "closeOpen (scanP p rows (Some s) ivs) = ivs @ openTail s (points p rows)"
proof (induction rows arbitrary: ivs s)
  case Nil
  {
    case 1 show ?case by (simp add: points_def)
  next
    case 2 show ?case by (simp add: points_def)
  }
next
  case (Cons r rows)
  {
    case 1
    show ?case
      using Cons.IH by (simp add: points_def)
  next
    case 2
    show ?case
      using Cons.IH by (simp add: points_def)
  }
qed

lemma closeOpen_case:
  "(case st of None \<Rightarrow> ivs | Some s \<Rightarrow> ivs @ [(s, 24)]) = closeOpen (st, ivs)"
  by (cases st) simp_all

lemma noIntervals_spec:
  "noIntervals rows pickKey = positive (extractSpec (points (\<lambda>r. isNoAtHour (pickKey r)) rows))"
proof (cases "rows = []")
  case True
  then show ?thesis by (simp add: noIntervals_def positive_def points_def)
next
  case False
  obtain st ivs where sc: "noScan pickKey rows None [] = (st, ivs)"
    by (cases "noScan pickKey rows None []")
  have "closeOpen (st, ivs) = extractSpec (points (\<lambda>r. isNoAtHour (pickKey r)) rows)"
    using scanP_spec(1) [of "\<lambda>r. isNoAtHour (pickKey r)" rows "[]"] sc
    by (simp add: noScan_scanP)
  with False sc show ?thesis
    by (simp add: noIntervals_def positive_def closeOpen_case)
qed

lemma boolIntervals_spec:
  "boolIntervals rows pickBool = positive (extractSpec (points (\<lambda>r. truthy (pickBool r)) rows))"
proof (cases "rows = []")
  case True
  then show ?thesis by (simp add: boolIntervals_def positive_def points_def)
next
  case False
  obtain st ivs where sc: "boolScan pickBool rows None [] = (st, ivs)"
    by (cases "boolScan pickBool rows None []")
  have "closeOpen (st, ivs) = extractSpec (points (\<lambda>r. truthy (pickBool r)) rows)"
    using scanP_spec(1) [of "\<lambda>r. truthy (pickBool r)" rows "[]"] sc
    by (simp add: boolScan_scanP)
  with False sc show ?thesis
    by (simp add: boolIntervals_def positive_def closeOpen_case)
qed

section \<open>A snapshot without a today pointer\<close>

lemma optMember_own:
  "optMember v k = (case ownMember v k of None \<Rightarrow> JUndefined | Some x \<Rightarrow> x)"
  by (cases v) (auto split: option.splits)

lemma optMemberLib_none: "optMemberLib (\<lambda>v k. None) v k = optMember v k"
  by (cases v) (auto simp: optMemberLib_def split: option.splits)





subsection \<open>What a truthy pointer leads to\<close>

text \<open>
  Outside the condition above the result depends on the pointer: the entry of the day
  when the map has it, null when it has none, a TypeError when the pointer is an object
  that \<open>String\<close> cannot print, and a member of the built-in library when the pointer names
  one the map inherits.
\<close>

lemma getTodayData_found: "getTodayData library dataToday = Inr todayA"
  by (simp add: getTodayData_def getTodayTimestamp_def dataToday_def optMemberLib_def todayA_def
      orNull_def)

lemma getTodayData_dangling: "getTodayData sampleLibrary dataStale = Inr JNull"
  by (simp add: getTodayData_def getTodayTimestamp_def dataStale_def optMemberLib_def
      sampleLibrary_def orNull_def)

lemma getTodayData_type_error: "getTodayData library dataBadPointer = Inl TypeError"
  by (simp add: getTodayData_def getTodayTimestamp_def dataBadPointer_def)

lemma getTodayData_inherited:
  "getTodayData sampleLibrary dataConstructor
     = Inr (JBuiltin ''function Object() { [native code] }'')"
  by (simp add: getTodayData_def getTodayTimestamp_def dataConstructor_def optMemberLib_def
      sampleLibrary_def orNull_def)

section \<open>Properties of the specification's extraction\<close>

lemma dropWhile_split:
  assumes "dropWhile snd pts = (y, off) # rest"
  shows "pts = takeWhile snd pts @ (y, off) # rest" and "\<not> off"
    and "\<forall>q\<in>set (takeWhile snd pts). snd q"
proof -
  show "pts = takeWhile snd pts @ (y, off) # rest"
    using assms takeWhile_dropWhile_id [of snd pts] by simp
  show "\<not> off"
    using assms hd_dropWhile [of snd pts] by auto
  show "\<forall>q\<in>set (takeWhile snd pts). snd q"
    by (auto dest: set_takeWhileD)
qed

lemma extractSpec_bounds:
  "(a, b) \<in> set (extractSpec pts) \<Longrightarrow> a \<in> fst ` set pts \<and> (b \<in> fst ` set pts \<or> b = 24)"
proof (induction pts arbitrary: a b rule: extractSpec.induct)
  case 1
  then show ?case by simp
next
  case (2 x on pts)
  show ?case
  proof (cases on)
    case False
    with 2 show ?thesis by auto
  next
    case True
    show ?thesis
    proof (cases "dropWhile snd pts")
      case Nil
      with True 2 show ?thesis by auto
    next
      case (Cons q rest)
      obtain y off where q: "q = (y, off)" by (cases q)
      have sub: "set (q # rest) \<subseteq> set pts"
        using Cons set_dropWhileD [of _ snd pts] by auto
      from 2 True Cons q have "(a, b) = (x, y) \<or> (a, b) \<in> set (extractSpec rest)"
        by simp
      then show ?thesis
      proof
        assume "(a, b) = (x, y)"
        with sub q show ?thesis by force
      next
        assume "(a, b) \<in> set (extractSpec rest)"
        from "2.IH"(1) [OF True Cons q [symmetric] this] sub
        show ?thesis by auto
      qed
    qed
  qed
qed

lemma sorted_split:
  assumes "sorted_wrt (<) (map fst ((x, on) # pts))" and "dropWhile snd pts = (y, off) # rest"
  shows "x < y" and "\<forall>q\<in>set (takeWhile snd pts). x < fst q \<and> fst q < y"
    and "\<forall>q\<in>set rest. y < fst q" and "sorted_wrt (<) (map fst rest)"
proof -
  have "pts = takeWhile snd pts @ (y, off) # rest"
    using assms(2) by (rule dropWhile_split)
  then obtain tk where pts: "pts = tk @ (y, off) # rest" and tk: "tk = takeWhile snd pts"
    by blast
  from assms(1) have "sorted_wrt (<) (x # map fst tk @ y # map fst rest)"
    by (simp add: pts)
  then have a: "x < y" and b: "\<forall>q\<in>set tk. x < fst q \<and> fst q < y"
    and c: "\<forall>q\<in>set rest. y < fst q" and d: "sorted_wrt (<) (map fst rest)"
    by (auto simp: sorted_wrt_append)
  show "x < y" by (rule a)
  show "\<forall>q\<in>set (takeWhile snd pts). x < fst q \<and> fst q < y" using b tk by simp
  show "\<forall>q\<in>set rest. y < fst q" by (rule c)
  show "sorted_wrt (<) (map fst rest)" by (rule d)
qed

lemma extractSpec_chain:
  "sorted_wrt (<) (map fst pts) \<Longrightarrow> sorted_wrt (\<lambda>i j. snd i < fst j) (extractSpec pts)"
proof (induction pts rule: extractSpec.induct)
  case 1
  then show ?case by simp
next
  case (2 x on pts)
  show ?case
  proof (cases on)
    case False
    with 2 show ?thesis by simp
  next
    case True
    show ?thesis
    proof (cases "dropWhile snd pts")
      case Nil
      with True show ?thesis by (simp del: dropWhile_eq_Nil_conv)
    next
      case (Cons q rest)
      obtain y off where q: "q = (y, off)" by (cases q)
      note sp = sorted_split [OF "2.prems" Cons [unfolded q]]
      have "sorted_wrt (\<lambda>i j. snd i < fst j) (extractSpec rest)"
        using "2.IH"(1) [OF True Cons q [symmetric]] sp(4) by simp
      moreover have "\<forall>j\<in>set (extractSpec rest). y < fst j"
      proof
        fix j assume "j \<in> set (extractSpec rest)"
        then have "(fst j, snd j) \<in> set (extractSpec rest)" by simp
        then have "fst j \<in> fst ` set rest"
          using extractSpec_bounds by blast
        with sp(3) show "y < fst j" by auto
      qed
      ultimately show ?thesis
        using True Cons q by simp
    qed
  qed
qed

lemma extractSpec_positive:
  assumes "sorted_wrt (<) (map fst pts)" and "\<forall>q\<in>set pts. fst q < 24"
  shows "(a, b) \<in> set (extractSpec pts) \<Longrightarrow> a < b"
  using assms
proof (induction pts arbitrary: a b rule: extractSpec.induct)
  case 1
  then show ?case by simp
next
  case (2 x on pts)
  show ?case
  proof (cases on)
    case False
    with 2 show ?thesis by simp
  next
    case True
    show ?thesis
    proof (cases "dropWhile snd pts")
      case Nil
      with True 2 show ?thesis by simp
    next
      case (Cons q rest)
      obtain y off where q: "q = (y, off)" by (cases q)
      note sp = sorted_split [OF "2.prems"(2) Cons [unfolded q]]
      have sub: "set rest \<subseteq> set pts"
        using Cons set_dropWhileD [of _ snd pts] by auto
      from "2.prems"(1) True Cons q have "(a, b) = (x, y) \<or> (a, b) \<in> set (extractSpec rest)"
        by simp
      then show ?thesis
      proof
        assume "(a, b) = (x, y)"
        with sp(1) show ?thesis by simp
      next
        assume "(a, b) \<in> set (extractSpec rest)"
        from "2.IH"(1) [OF True Cons q [symmetric] this sp(4)] sub "2.prems"(3)
        show ?thesis by auto
      qed
    qed
  qed
qed

lemma covered_Cons: "covered ((a, b) # ivs) x = (a \<le> x \<and> x < b \<or> covered ivs x)"
  by (simp add: covered_def)

lemma covered_Nil: "covered [] x = False"
  by (simp add: covered_def)

lemma not_covered_before:
  assumes "\<forall>q\<in>set pts. x < fst q"
  shows "\<not> covered (extractSpec pts) x"
proof
  assume "covered (extractSpec pts) x"
  then obtain a b where ab: "(a, b) \<in> set (extractSpec pts)" and "a \<le> x"
    by (auto simp: covered_def)
  from extractSpec_bounds [OF ab] have "a \<in> fst ` set pts" by simp
  with assms have "x < a" by auto
  with \<open>a \<le> x\<close> show False by simp
qed

lemma extractSpec_covered:
  assumes "sorted_wrt (<) (map fst pts)" and "\<forall>q\<in>set pts. fst q < 24"
  shows "q \<in> set pts \<Longrightarrow> covered (extractSpec pts) (fst q) = snd q"
  using assms
proof (induction pts arbitrary: q rule: extractSpec.induct)
  case 1
  then show ?case by simp
next
  case (2 x on pts)
  have later: "\<forall>p\<in>set pts. x < fst p"
    using "2.prems"(2) by simp
  have srt: "sorted_wrt (<) (map fst pts)"
    using "2.prems"(2) by simp
  show ?case
  proof (cases on)
    case False
    show ?thesis
    proof (cases "q = (x, on)")
      case True
      with False not_covered_before [OF later] show ?thesis by simp
    next
      case neq: False
      with "2.prems"(1) have "q \<in> set pts" by simp
      from "2.IH"(2) [OF False this srt] "2.prems"(3) False show ?thesis by simp
    qed
  next
    case True
    show ?thesis
    proof (cases "dropWhile snd pts")
      case Nil
      then have allon: "\<forall>p\<in>set pts. snd p"
        by simp
      have res: "extractSpec ((x, on) # pts) = [(x, 24)]"
        using True Nil by (simp del: dropWhile_eq_Nil_conv)
      show ?thesis
      proof (cases "q = (x, on)")
        case qx: True
        with res True "2.prems"(3) show ?thesis by (simp add: covered_def)
      next
        case False
        with "2.prems"(1) have qin: "q \<in> set pts" by simp
        with later allon "2.prems"(3) res show ?thesis by (auto simp: covered_def)
      qed
    next
      case (Cons q0 rest)
      obtain y off where q0: "q0 = (y, off)" by (cases q0)
      note dw = Cons [unfolded q0]
      note sp = sorted_split [OF "2.prems"(2) dw]
      note ds = dropWhile_split [OF dw]
      have res: "extractSpec ((x, on) # pts) = (x, y) # extractSpec rest"
        using True dw by simp
      have sub: "set rest \<subseteq> set pts"
        using dw set_dropWhileD [of _ snd pts] by auto
      from "2.prems"(1) ds(1)
      consider "q = (x, on)" | "q \<in> set (takeWhile snd pts)" | "q = (y, off)" | "q \<in> set rest"
        by (metis Un_iff set_ConsD set_append)
      then show ?thesis
      proof cases
        case 1
        with res True sp(1) show ?thesis by (simp add: covered_Cons)
      next
        case 2
        with sp(2) ds(3) have "x < fst q" "fst q < y" "snd q" by auto
        with res show ?thesis by (simp add: covered_Cons)
      next
        case 3
        with res ds(2) not_covered_before [OF sp(3)] show ?thesis by (simp add: covered_Cons)
      next
        case 4
        with sp(3) have "y < fst q" by simp
        moreover have "covered (extractSpec rest) (fst q) = snd q"
          using "2.IH"(1) [OF True Cons q0 [symmetric] 4 sp(4)] sub "2.prems"(3) by auto
        ultimately show ?thesis using res by (simp add: covered_Cons)
      qed
    qed
  qed
qed

section \<open>Interval extraction follows the scan of the specification\<close>

lemma positive_set: "(a, b) \<in> set (positive ivs) \<Longrightarrow> a < b"
  by (simp add: positive_def)

lemma positive_id:
  assumes "sorted_wrt (<) (map fst pts)" and "\<forall>q\<in>set pts. fst q < 24"
  shows "positive (extractSpec pts) = extractSpec pts"
  unfolding positive_def
  by (rule filter_True) (auto dest: extractSpec_positive [OF assms])

lemma points_fst: "map fst (points p rows) = map t rows"
  by (simp add: points_def comp_def)

lemma points_bound: "(\<forall>q\<in>set (points p rows). fst q < 24) = (\<forall>r\<in>set rows. t r < 24)"
  by (auto simp: points_def)

text \<open>
  C1. Both extractors scan the points in order: an interval opens at the time of the
  first point where the predicate holds, closes at the time of the first later point
  where it does not, an interval open after the last point closes at 24, and only
  intervals of strictly positive duration are emitted. On a timeline in strictly ascending
  order below 24 no interval is dropped. The strings returned are these intervals,
  formatted.
\<close>

theorem interval_extraction_scan:
  "noIntervals rows pickKey = positive (extractSpec (points (\<lambda>r. isNoAtHour (pickKey r)) rows))
   \<and> boolIntervals rows pickBool = positive (extractSpec (points (\<lambda>r. truthy (pickBool r)) rows))
   \<and> getNoIntervalsFromRows rows pickKey = map formatInterval (noIntervals rows pickKey)
   \<and> getBoolIntervalsFromRows rows pickBool = map formatInterval (boolIntervals rows pickBool)
   \<and> (\<forall>(a, b)\<in>set (noIntervals rows pickKey). a < b)
   \<and> (\<forall>(a, b)\<in>set (boolIntervals rows pickBool). a < b)
   \<and> (sorted_wrt (<) (map t rows) \<and> (\<forall>r\<in>set rows. t r < 24)
        \<longrightarrow> positive (extractSpec (points p rows)) = extractSpec (points p rows))"
proof (intro conjI impI)
  show "noIntervals rows pickKey
          = positive (extractSpec (points (\<lambda>r. isNoAtHour (pickKey r)) rows))"
    by (rule noIntervals_spec)
  show "boolIntervals rows pickBool
          = positive (extractSpec (points (\<lambda>r. truthy (pickBool r)) rows))"
    by (rule boolIntervals_spec)
  show "getNoIntervalsFromRows rows pickKey = map formatInterval (noIntervals rows pickKey)"
    by (simp add: getNoIntervalsFromRows_def)
  show "getBoolIntervalsFromRows rows pickBool = map formatInterval (boolIntervals rows pickBool)"
    by (simp add: getBoolIntervalsFromRows_def)
  show "\<forall>(a, b)\<in>set (noIntervals rows pickKey). a < b"
    by (auto simp: noIntervals_spec dest: positive_set)
  show "\<forall>(a, b)\<in>set (boolIntervals rows pickBool). a < b"
    by (auto simp: boolIntervals_spec dest: positive_set)
  show "positive (extractSpec (points p rows)) = extractSpec (points p rows)"
    if "sorted_wrt (<) (map t rows) \<and> (\<forall>r\<in>set rows. t r < 24)"
    using that by (intro positive_id) (simp_all add: points_fst points_bound)
qed

lemmas evalSample = sampleRows_def sampleRow_def points_def positive_def isNoAtHour_def
  normalizeStatusKey_def STATUS_ORDER_def

theorem interval_extraction_scan_witness:
  "sorted_wrt (<) (map t sampleRows) \<and> list_all (\<lambda>r. t r < 24) sampleRows
   \<and> extractSpec (points (\<lambda>r. isNoAtHour (medicKey r)) sampleRows) = [(0, 1), (3 / 2, 24)]
   \<and> noIntervals sampleRows medicKey = [(0, 1), (3 / 2, 24)]
   \<and> boolIntervals sampleRows (\<lambda>r. JBool (overlapNo r)) = [(0, 1), (3 / 2, 24)]
   \<and> getNoIntervalsFromRows sampleRows medicKey = [''00:00-01:00'', ''01:30-24:00'']
   \<and> getBoolIntervalsFromRows sampleRows (\<lambda>r. JBool (overlapNo r))
       = [''00:00-01:00'', ''01:30-24:00'']"
proof -
  note th = interval_extraction_scan [of sampleRows medicKey "\<lambda>r. JBool (overlapNo r)"
      "\<lambda>r. isNoAtHour (medicKey r)"]
  have s: "sorted_wrt (<) (map t sampleRows)" and b: "list_all (\<lambda>r. t r < 24) sampleRows"
    by (simp_all add: evalSample)
  have e1: "extractSpec (points (\<lambda>r. isNoAtHour (medicKey r)) sampleRows) = [(0, 1), (3 / 2, 24)]"
    by (simp add: evalSample)
  from th have "noIntervals sampleRows medicKey
      = positive (extractSpec (points (\<lambda>r. isNoAtHour (medicKey r)) sampleRows))"
    by (elim conjE)
  then have n: "noIntervals sampleRows medicKey = [(0, 1), (3 / 2, 24)]"
    by (simp add: e1 positive_def)
  from th have "boolIntervals sampleRows (\<lambda>r. JBool (overlapNo r))
      = positive (extractSpec (points (\<lambda>r. truthy (JBool (overlapNo r))) sampleRows))"
    by (elim conjE)
  then have o: "boolIntervals sampleRows (\<lambda>r. JBool (overlapNo r)) = [(0, 1), (3 / 2, 24)]"
    by (simp add: evalSample)
  from th have "getNoIntervalsFromRows sampleRows medicKey
      = map formatInterval (noIntervals sampleRows medicKey)"
    by (elim conjE)
  then have gn: "getNoIntervalsFromRows sampleRows medicKey = [''00:00-01:00'', ''01:30-24:00'']"
    by (simp add: n evalString)
  from th have "getBoolIntervalsFromRows sampleRows (\<lambda>r. JBool (overlapNo r))
      = map formatInterval (boolIntervals sampleRows (\<lambda>r. JBool (overlapNo r)))"
    by (elim conjE)
  then have gb: "getBoolIntervalsFromRows sampleRows (\<lambda>r. JBool (overlapNo r))
      = [''00:00-01:00'', ''01:30-24:00'']"
    by (simp add: o evalString)
  from s b e1 n o gn gb show ?thesis
    by (intro conjI)
qed

section \<open>The time coordinates of the timeline\<close>

lemma timelineT_eq:
  "timelineT = [0, 1 / 2, 1, 3 / 2, 2, 5 / 2, 3, 7 / 2, 4, 9 / 2, 5, 11 / 2, 6, 13 / 2, 7, 15 / 2,
     8, 17 / 2, 9, 19 / 2, 10, 21 / 2, 11, 23 / 2, 12, 25 / 2, 13, 27 / 2, 14, 29 / 2, 15, 31 / 2,
     16, 33 / 2, 17, 35 / 2, 18, 37 / 2, 19, 39 / 2, 20, 41 / 2, 21, 43 / 2, 22, 45 / 2, 23, 47 / 2]"
  by (simp add: timelineT_def hours24)

lemma timelineT_sorted: "sorted_wrt (<) timelineT"
  by (simp add: timelineT_eq)

lemma timelineT_bound: "\<forall>x\<in>set timelineT. x < 24"
  by (simp add: timelineT_eq)

lemma chartData_times: "map t (chartData today) = (if truthy today then timelineT else [])"
proof (cases "truthy today")
  case True
  have "map t (hourRows hg mg rg h) = [of_int (h - 1), of_int (h - 1) + 1 / 2]" for hg mg rg h
    by (simp add: hourRows_unfold)
  with True show ?thesis
    by (simp add: chartData_truthy timelineT_def map_concat comp_def)
next
  case False
  then show ?thesis by (simp add: chartData_def)
qed

lemma chartData_sorted: "sorted_wrt (<) (map t (chartData today))"
  by (simp add: chartData_times timelineT_sorted)

lemma chartData_bound: "\<forall>r\<in>set (chartData today). t r < 24"
proof -
  have "\<forall>x\<in>set (map t (chartData today)). x < 24"
    using timelineT_bound by (simp add: chartData_times)
  then show ?thesis by simp
qed

section \<open>The signals of the timeline\<close>

lemma expand_halfHourKeys:
  "fst (expandHourToHalves v) \<in> halfHourKeys" "snd (expandHourToHalves v) \<in> halfHourKeys"
  by (simp_all add: expand_unfold halfHourKeys_def)

lemma isNoAtHour_half: "k \<in> halfHourKeys \<Longrightarrow> isNoAtHour k = (k = JStr ''no'')"
  by (auto simp: isNoAtHour_def halfHourKeys_def normalizeStatusKey_def STATUS_ORDER_def)

lemma hourRows_signals:
  "map tickSignals (hourRows hg mg rg h) = hourSignals mg rg h"
  by (simp add: hourRows_unfold tickSignals_def hourSignals_def isNoAtHour_half expand_halfHourKeys)

lemma hourSignals_orNull: "hourSignals (orNull mg) (orNull rg) h = hourSignals mg rg h"
  by (simp add: hourSignals_def optMember_orNull)

lemma chartData_signals:
  "truthy today \<Longrightarrow>
   map tickSignals (chartData today)
     = concat (map (hourSignals (optMember today ''GPV2.1'') (optMember today ''GPV5.1'')) [1..24])"
  by (simp add: chartData_truthy map_concat comp_def hourRows_signals hourSignals_orNull)

lemma points_medic:
  "points (\<lambda>r. isNoAtHour (medicKey r)) rows
     = map (\<lambda>s. (fst s, isNoAtHour (fst (snd s)))) (map tickSignals rows)"
  by (simp add: points_def comp_def tickSignals_def)

lemma points_overlap:
  "points (\<lambda>r. truthy (JBool (overlapNo r))) rows
     = map (\<lambda>s. (fst s, snd (snd (snd s)))) (map tickSignals rows)"
  by (simp add: points_def comp_def tickSignals_def)

lemmas evalSignals = hours24 hourSignals_def expand_unfold normalizeStatusKey_def STATUS_ORDER_def
  showInt_def showNat_small showNat_big digitChar_def isNoAtHour_def positive_def

lemma chartData_length: "truthy today \<Longrightarrow> length (chartData today) = 48"
proof -
  assume "truthy today"
  then have "length (map t (chartData today)) = length timelineT"
    by (simp only: chartData_times if_True)
  then show ?thesis by (simp add: timelineT_eq)
qed

text \<open>A built-in value as \<open>today\<close> is truthy and has none of the groups: the timeline has
  its 48 rows.\<close>

lemma chartData_builtin: "length (chartData (JBuiltin s)) = 48"
  by (rule chartData_length) simp

section \<open>The intervals cover the points where the predicate holds\<close>

lemma covered_positive: "covered (positive ivs) x = covered ivs x"
  by (fastforce simp: covered_def positive_def)

lemma boolIntervals_covered:
  assumes "sorted_wrt (<) (map t rows)" and "\<forall>r\<in>set rows. t r < 24" and "r \<in> set rows"
  shows "covered (boolIntervals rows pickBool) (t r) = truthy (pickBool r)"
proof -
  let ?pts = "points (\<lambda>r. truthy (pickBool r)) rows"
  have "(t r, truthy (pickBool r)) \<in> set ?pts"
    using assms(3) by (auto simp: points_def)
  moreover have "sorted_wrt (<) (map fst ?pts)" "\<forall>q\<in>set ?pts. fst q < 24"
    using assms(1,2) by (simp_all add: points_fst points_bound)
  ultimately have "covered (extractSpec ?pts) (fst (t r, truthy (pickBool r)))
      = snd (t r, truthy (pickBool r))"
    by (intro extractSpec_covered)
  then show ?thesis
    by (simp add: boolIntervals_spec covered_positive)
qed

lemma noIntervals_covered:
  assumes "sorted_wrt (<) (map t rows)" and "\<forall>r\<in>set rows. t r < 24" and "r \<in> set rows"
  shows "covered (noIntervals rows pickKey) (t r) = isNoAtHour (pickKey r)"
proof -
  let ?pts = "points (\<lambda>r. isNoAtHour (pickKey r)) rows"
  have "(t r, isNoAtHour (pickKey r)) \<in> set ?pts"
    using assms(3) by (auto simp: points_def)
  moreover have "sorted_wrt (<) (map fst ?pts)" "\<forall>q\<in>set ?pts. fst q < 24"
    using assms(1,2) by (simp_all add: points_fst points_bound)
  ultimately have "covered (extractSpec ?pts) (fst (t r, isNoAtHour (pickKey r)))
      = snd (t r, isNoAtHour (pickKey r))"
    by (intro extractSpec_covered)
  then show ?thesis
    by (simp add: noIntervals_spec covered_positive)
qed

lemma extractSpec_ends:
  "(a, b) \<in> set (extractSpec pts) \<Longrightarrow> (a, True) \<in> set pts \<and> (b = 24 \<or> (b, False) \<in> set pts)"
proof (induction pts arbitrary: a b rule: extractSpec.induct)
  case 1
  then show ?case by simp
next
  case (2 x on pts)
  show ?case
  proof (cases on)
    case False
    with 2 show ?thesis by auto
  next
    case True
    show ?thesis
    proof (cases "dropWhile snd pts")
      case Nil
      with True 2 show ?thesis by auto
    next
      case (Cons q rest)
      obtain y off where q: "q = (y, off)" by (cases q)
      note ds = dropWhile_split [OF Cons [unfolded q]]
      have sub: "set ((y, off) # rest) \<subseteq> set pts"
        using Cons q set_dropWhileD [of _ snd pts] by auto
      from 2 True Cons q have "(a, b) = (x, y) \<or> (a, b) \<in> set (extractSpec rest)"
        by simp
      then show ?thesis
      proof
        assume "(a, b) = (x, y)"
        with sub ds(2) True show ?thesis by auto
      next
        assume "(a, b) \<in> set (extractSpec rest)"
        from "2.IH"(1) [OF True Cons q [symmetric] this] sub
        show ?thesis by auto
      qed
    qed
  qed
qed

lemma positive_runs:
  assumes "sorted_wrt (<) (map t rows)" and "\<forall>r\<in>set rows. t r < 24"
  shows "runsOf p rows (positive (extractSpec (points p rows)))"
  unfolding runsOf_def
proof (intro conjI ballI)
  fix r assume r: "r \<in> set rows"
  have "(t r, p r) \<in> set (points p rows)"
    using r by (auto simp: points_def)
  moreover have "sorted_wrt (<) (map fst (points p rows))" "\<forall>q\<in>set (points p rows). fst q < 24"
    using assms by (simp_all add: points_fst points_bound)
  ultimately have "covered (extractSpec (points p rows)) (fst (t r, p r)) = snd (t r, p r)"
    by (intro extractSpec_covered)
  then show "covered (positive (extractSpec (points p rows))) (t r) = p r"
    by (simp add: covered_positive)
next
  fix iv assume "iv \<in> set (positive (extractSpec (points p rows)))"
  then have "(fst iv, snd iv) \<in> set (extractSpec (points p rows))"
    by (simp add: positive_def)
  from extractSpec_ends [OF this]
  show "case iv of (a, b) \<Rightarrow>
          (\<exists>r\<in>set rows. t r = a \<and> p r) \<and> (b = 24 \<or> (\<exists>r\<in>set rows. t r = b \<and> \<not> p r))"
    by (cases iv) (auto simp: points_def)
qed

section \<open>Well-formed interval lists\<close>

lemma chain_wellFormed:
  assumes pos: "positiveDuration ivs" and ch: "sorted_wrt (\<lambda>i j. snd i < fst j) ivs"
  shows "wellFormedIntervals ivs"
proof -
  have lt: "fst (ivs ! i) < snd (ivs ! i)" if "i < length ivs" for i
    using pos that nth_mem [OF that] by (fastforce simp: positiveDuration_def)
  have gap: "snd (ivs ! i) < fst (ivs ! j)" if "i < j" "j < length ivs" for i j
    using sorted_wrt_nth_less [OF ch that] .
  have asc: "ascendingStarts ivs"
    unfolding ascendingStarts_def sorted_wrt_map
  proof (rule sorted_wrt_mono_rel [OF _ ch])
    fix x y assume "x \<in> set ivs" "y \<in> set ivs" "snd x < fst y"
    moreover from \<open>x \<in> set ivs\<close> pos have "fst x < snd x"
      by (auto simp: positiveDuration_def)
    ultimately show "fst x < fst y" by simp
  qed
  have dis: "nonOverlapping ivs"
    unfolding nonOverlapping_def
  proof (intro allI impI)
    fix i j assume i: "i < length ivs" and j: "j < length ivs" and ne: "i \<noteq> j"
    show "{fst (ivs ! i)..<snd (ivs ! i)} \<inter> {fst (ivs ! j)..<snd (ivs ! j)} = {}"
    proof (cases "i < j")
      case True
      from gap [OF True j] show ?thesis by auto
    next
      case False
      with ne have "j < i" by simp
      from gap [OF this i] show ?thesis by auto
    qed
  qed
  have unm: "unmergeable ivs"
    unfolding unmergeable_def using gap by simp
  from pos asc dis unm show ?thesis
    by (simp add: wellFormedIntervals_def)
qed

lemma positive_wellFormed:
  assumes "sorted_wrt (<) (map fst pts)"
  shows "wellFormedIntervals (positive (extractSpec pts))"
proof (rule chain_wellFormed)
  show "positiveDuration (positive (extractSpec pts))"
    by (auto simp: positiveDuration_def dest: positive_set)
  show "sorted_wrt (\<lambda>i j. snd i < fst j) (positive (extractSpec pts))"
    unfolding positive_def by (rule sorted_wrt_filter) (rule extractSpec_chain [OF assms])
qed

lemma outageLines_intervals:
  "outageLines rows =
     \<lparr>home_lines = map formatInterval (noIntervals rows homeKey),
      medic_lines = map formatInterval (noIntervals rows medicKey),
      reserve_lines = map formatInterval (noIntervals rows reserveKey),
      overlap_lines = map formatInterval (boolIntervals rows (\<lambda>r. JBool (overlapNo r)))\<rparr>"
  by (simp add: outageLines_def getNoIntervalsFromRows_def getBoolIntervalsFromRows_def
      noIntervals_def boolIntervals_def)

text \<open>
  C6. Every interval list extracted from the timeline, for any status key and for the
  overlap flag, has intervals of strictly positive duration, in ascending order, no two of
  them sharing a time, and with a gap between neighbours, so that no two can be merged;
  the intervals are the runs of the predicate over the timeline; the four lists of
  \<open>outageLines\<close> are such lists, formatted. The first four properties hold for any rows
  in strictly ascending time order.
\<close>

theorem intervals_well_formed:
  "wellFormedIntervals (noIntervals (chartData today) pickKey)
   \<and> wellFormedIntervals (boolIntervals (chartData today) pickBool)
   \<and> runsOf (\<lambda>r. isNoAtHour (pickKey r)) (chartData today)
        (noIntervals (chartData today) pickKey)
   \<and> runsOf (\<lambda>r. truthy (pickBool r)) (chartData today)
        (boolIntervals (chartData today) pickBool)
   \<and> outageLines (chartData today) =
       \<lparr>home_lines = map formatInterval (noIntervals (chartData today) homeKey),
        medic_lines = map formatInterval (noIntervals (chartData today) medicKey),
        reserve_lines = map formatInterval (noIntervals (chartData today) reserveKey),
        overlap_lines =
          map formatInterval (boolIntervals (chartData today) (\<lambda>r. JBool (overlapNo r)))\<rparr>
   \<and> (sorted_wrt (<) (map t rows)
        \<longrightarrow> wellFormedIntervals (noIntervals rows pickKey)
            \<and> wellFormedIntervals (boolIntervals rows pickBool))"
proof (intro conjI impI)
  show "wellFormedIntervals (noIntervals (chartData today) pickKey)"
    unfolding noIntervals_spec
    by (rule positive_wellFormed) (simp add: points_fst chartData_sorted)
  show "wellFormedIntervals (boolIntervals (chartData today) pickBool)"
    unfolding boolIntervals_spec
    by (rule positive_wellFormed) (simp add: points_fst chartData_sorted)
  show "runsOf (\<lambda>r. isNoAtHour (pickKey r)) (chartData today)
        (noIntervals (chartData today) pickKey)"
    unfolding noIntervals_spec
    by (rule positive_runs [OF chartData_sorted chartData_bound])
  show "runsOf (\<lambda>r. truthy (pickBool r)) (chartData today)
        (boolIntervals (chartData today) pickBool)"
    unfolding boolIntervals_spec
    by (rule positive_runs [OF chartData_sorted chartData_bound])
  show "outageLines (chartData today) =
       \<lparr>home_lines = map formatInterval (noIntervals (chartData today) homeKey),
        medic_lines = map formatInterval (noIntervals (chartData today) medicKey),
        reserve_lines = map formatInterval (noIntervals (chartData today) reserveKey),
        overlap_lines =
          map formatInterval (boolIntervals (chartData today) (\<lambda>r. JBool (overlapNo r)))\<rparr>"
    by (rule outageLines_intervals)
  show "wellFormedIntervals (noIntervals rows pickKey)" if "sorted_wrt (<) (map t rows)"
    unfolding noIntervals_spec
    by (rule positive_wellFormed) (simp add: points_fst that)
  show "wellFormedIntervals (boolIntervals rows pickBool)" if "sorted_wrt (<) (map t rows)"
    unfolding boolIntervals_spec
    by (rule positive_wellFormed) (simp add: points_fst that)
qed

theorem intervals_well_formed_witness:
  "noIntervals (chartData todayB) medicKey = [(2, 5), (10, 11)]
   \<and> wellFormedIntervals [(2, 5), (10, 11)]
   \<and> runsOf (\<lambda>r. isNoAtHour (medicKey r)) (chartData todayB) [(2, 5), (10, 11)]
   \<and> boolIntervals (chartData todayB) (\<lambda>r. JBool (overlapNo r)) = [(9 / 2, 5), (10, 11)]
   \<and> wellFormedIntervals [(9 / 2, 5), (10, 11)]
   \<and> medic_lines (outageLines (chartData todayB)) = [''02:00-05:00'', ''10:00-11:00'']
   \<and> overlap_lines (outageLines (chartData todayB)) = [''04:30-05:00'', ''10:00-11:00'']
   \<and> sorted_wrt (<) (map t sampleRows)
   \<and> wellFormedIntervals (noIntervals sampleRows medicKey)"
proof -
  note th = intervals_well_formed [of todayB medicKey "\<lambda>r. JBool (overlapNo r)" sampleRows]
  have tr: "truthy todayB"
    by (simp add: todayB_def)
  have n: "noIntervals (chartData todayB) medicKey = [(2, 5), (10, 11)]"
    unfolding noIntervals_spec points_medic chartData_signals [OF tr]
    by (simp add: todayB_def evalSignals)
  have o: "boolIntervals (chartData todayB) (\<lambda>r. JBool (overlapNo r)) = [(9 / 2, 5), (10, 11)]"
    unfolding boolIntervals_spec points_overlap chartData_signals [OF tr]
    by (simp add: todayB_def evalSignals)
  from th have "wellFormedIntervals (noIntervals (chartData todayB) medicKey)"
    by (elim conjE)
  then have wn: "wellFormedIntervals [(2, 5), (10, 11)]"
    by (simp only: n)
  from th have "runsOf (\<lambda>r. isNoAtHour (medicKey r)) (chartData todayB)
      (noIntervals (chartData todayB) medicKey)"
    by (elim conjE)
  then have rn: "runsOf (\<lambda>r. isNoAtHour (medicKey r)) (chartData todayB) [(2, 5), (10, 11)]"
    by (simp only: n)
  from th have "wellFormedIntervals (boolIntervals (chartData todayB) (\<lambda>r. JBool (overlapNo r)))"
    by (elim conjE)
  then have wo: "wellFormedIntervals [(9 / 2, 5), (10, 11)]"
    by (simp only: o)
  from th have ol: "outageLines (chartData todayB) =
       \<lparr>home_lines = map formatInterval (noIntervals (chartData todayB) homeKey),
        medic_lines = map formatInterval (noIntervals (chartData todayB) medicKey),
        reserve_lines = map formatInterval (noIntervals (chartData todayB) reserveKey),
        overlap_lines =
          map formatInterval (boolIntervals (chartData todayB) (\<lambda>r. JBool (overlapNo r)))\<rparr>"
    by (elim conjE)
  have ml: "medic_lines (outageLines (chartData todayB)) = [''02:00-05:00'', ''10:00-11:00'']"
    by (simp add: ol n evalString)
  have vl: "overlap_lines (outageLines (chartData todayB)) = [''04:30-05:00'', ''10:00-11:00'']"
    by (simp add: ol o evalString)
  have s: "sorted_wrt (<) (map t sampleRows)"
    by (simp add: evalSample)
  from th have "sorted_wrt (<) (map t sampleRows)
      \<longrightarrow> wellFormedIntervals (noIntervals sampleRows medicKey)
          \<and> wellFormedIntervals (boolIntervals sampleRows (\<lambda>r. JBool (overlapNo r)))"
    by (elim conjE)
  with s have ws: "wellFormedIntervals (noIntervals sampleRows medicKey)"
    by blast
  from n wn rn o wo ml vl s ws show ?thesis
    by (intro conjI)
qed

section \<open>Round trip between intervals and points\<close>

lemma boolIntervals_cong:
  assumes "map t rows' = map t rows"
    and "map (\<lambda>r. truthy (pickBool' r)) rows' = map (\<lambda>r. truthy (pickBool r)) rows"
  shows "boolIntervals rows' pickBool' = boolIntervals rows pickBool"
proof -
  have "points (\<lambda>r. truthy (pickBool' r)) rows' = points (\<lambda>r. truthy (pickBool r)) rows"
    unfolding points_def
  proof (rule nth_equalityI)
    show "length (map (\<lambda>r. (t r, truthy (pickBool' r))) rows')
        = length (map (\<lambda>r. (t r, truthy (pickBool r))) rows)"
      using assms(1) by (metis length_map)
  next
    fix i assume "i < length (map (\<lambda>r. (t r, truthy (pickBool' r))) rows')"
    then have i: "i < length rows'" by simp
    moreover have len: "length rows' = length rows"
      using assms(1) by (metis length_map)
    ultimately have i': "i < length rows" by simp
    have "t (rows' ! i) = t (rows ! i)"
      using arg_cong [OF assms(1), of "\<lambda>xs. xs ! i"] i i' by simp
    moreover have "truthy (pickBool' (rows' ! i)) = truthy (pickBool (rows ! i))"
      using arg_cong [OF assms(2), of "\<lambda>xs. xs ! i"] i i' by simp
    ultimately show "map (\<lambda>r. (t r, truthy (pickBool' r))) rows' ! i
        = map (\<lambda>r. (t r, truthy (pickBool r))) rows ! i"
      using i i' by simp
  qed
  then show ?thesis
    by (simp add: boolIntervals_spec)
qed

lemma round_trip_general:
  assumes srt: "sorted_wrt (<) (map t rows)" and bnd: "\<forall>r\<in>set rows. t r < 24"
    and ts: "map t rows' = map t rows"
    and cv: "\<forall>r'\<in>set rows'. truthy (pickBool' r') = covered (boolIntervals rows pickBool) (t r')"
  shows "boolIntervals rows' pickBool' = boolIntervals rows pickBool"
proof (rule boolIntervals_cong [OF ts])
  have len: "length rows' = length rows"
    using ts by (metis length_map)
  show "map (\<lambda>r. truthy (pickBool' r)) rows' = map (\<lambda>r. truthy (pickBool r)) rows"
  proof (rule nth_equalityI)
    show "length (map (\<lambda>r. truthy (pickBool' r)) rows')
        = length (map (\<lambda>r. truthy (pickBool r)) rows)"
      using len by simp
  next
    fix i assume "i < length (map (\<lambda>r. truthy (pickBool' r)) rows')"
    then have i: "i < length rows'" by simp
    with len have i': "i < length rows" by simp
    have teq: "t (rows' ! i) = t (rows ! i)"
      using arg_cong [OF ts, of "\<lambda>xs. xs ! i"] i i' by simp
    have "truthy (pickBool' (rows' ! i)) = covered (boolIntervals rows pickBool) (t (rows' ! i))"
      using cv i by simp
    also have "\<dots> = truthy (pickBool (rows ! i))"
      unfolding teq by (rule boolIntervals_covered [OF srt bnd]) (simp add: i')
    finally show "map (\<lambda>r. truthy (pickBool' r)) rows' ! i
        = map (\<lambda>r. truthy (pickBool r)) rows ! i"
      using i i' by simp
  qed
qed

lemma flatten_times: "map t (flatten ivs rows) = map t rows"
  by (simp add: flatten_def comp_def)

lemma flatten_overlap: "r' \<in> set (flatten ivs rows) \<Longrightarrow> overlapNo r' = covered ivs (t r')"
  by (auto simp: flatten_def)

text \<open>
  C8. Round trip: take the intervals extracted for any predicate from a 48-point timeline,
  flatten them back to a timeline whose flag holds exactly at the half-hour points the
  intervals cover, and extract again: the interval list, and its formatted form, are the
  same. This holds for every reconstruction with the same time coordinates whose predicate
  is true exactly at the covered points.
\<close>

theorem extraction_round_trip:
  assumes "map t rows = timelineT"
  shows "boolIntervals (flatten (boolIntervals rows pickBool) rows) (\<lambda>r. JBool (overlapNo r))
           = boolIntervals rows pickBool
     \<and> getBoolIntervalsFromRows (flatten (boolIntervals rows pickBool) rows)
           (\<lambda>r. JBool (overlapNo r))
           = getBoolIntervalsFromRows rows pickBool
     \<and> (\<forall>rows' pickBool'.
           map t rows' = map t rows
           \<and> (\<forall>r'\<in>set rows'.
                 truthy (pickBool' r') = covered (boolIntervals rows pickBool) (t r'))
           \<longrightarrow> boolIntervals rows' pickBool' = boolIntervals rows pickBool)"
proof -
  have srt: "sorted_wrt (<) (map t rows)"
    using assms timelineT_sorted by simp
  have "\<forall>x\<in>set (map t rows). x < 24"
    using assms timelineT_bound by simp
  then have bnd: "\<forall>r\<in>set rows. t r < 24" by simp
  have a: "boolIntervals (flatten (boolIntervals rows pickBool) rows) (\<lambda>r. JBool (overlapNo r))
           = boolIntervals rows pickBool"
    by (rule round_trip_general [OF srt bnd flatten_times]) (simp add: flatten_overlap)
  have b: "getBoolIntervalsFromRows (flatten (boolIntervals rows pickBool) rows)
           (\<lambda>r. JBool (overlapNo r))
           = getBoolIntervalsFromRows rows pickBool"
    by (simp add: getBoolIntervalsFromRows_def a)
  have c: "boolIntervals rows' pickBool' = boolIntervals rows pickBool"
    if "map t rows' = map t rows
        \<and> (\<forall>r'\<in>set rows'. truthy (pickBool' r') = covered (boolIntervals rows pickBool) (t r'))"
    for rows' pickBool'
    using that by (intro round_trip_general [OF srt bnd]) simp_all
  from a b c show ?thesis by blast
qed

theorem extraction_round_trip_witness:
  "map t (chartData todayB) = timelineT
   \<and> boolIntervals (chartData todayB) (\<lambda>r. JBool (overlapNo r)) = [(9 / 2, 5), (10, 11)]
   \<and> boolIntervals (flatten [(9 / 2, 5), (10, 11)] (chartData todayB)) (\<lambda>r. JBool (overlapNo r))
       = [(9 / 2, 5), (10, 11)]
   \<and> getBoolIntervalsFromRows (flatten [(9 / 2, 5), (10, 11)] (chartData todayB))
         (\<lambda>r. JBool (overlapNo r))
       = [''04:30-05:00'', ''10:00-11:00'']"
proof -
  have tr: "truthy todayB"
    by (simp add: todayB_def)
  have tl: "map t (chartData todayB) = timelineT"
    using tr by (simp add: chartData_times)
  note th = extraction_round_trip [OF tl, of "\<lambda>r. JBool (overlapNo r)"]
  have o: "boolIntervals (chartData todayB) (\<lambda>r. JBool (overlapNo r)) = [(9 / 2, 5), (10, 11)]"
    unfolding boolIntervals_spec points_overlap chartData_signals [OF tr]
    by (simp add: todayB_def evalSignals)
  from th have a: "boolIntervals (flatten [(9 / 2, 5), (10, 11)] (chartData todayB))
        (\<lambda>r. JBool (overlapNo r)) = [(9 / 2, 5), (10, 11)]"
    unfolding o by (elim conjE)
  from th have "getBoolIntervalsFromRows (flatten [(9 / 2, 5), (10, 11)] (chartData todayB))
        (\<lambda>r. JBool (overlapNo r))
      = getBoolIntervalsFromRows (chartData todayB) (\<lambda>r. JBool (overlapNo r))"
    unfolding o by (elim conjE)
  then have b: "getBoolIntervalsFromRows (flatten [(9 / 2, 5), (10, 11)] (chartData todayB))
        (\<lambda>r. JBool (overlapNo r)) = [''04:30-05:00'', ''10:00-11:00'']"
    by (simp add: getBoolIntervalsFromRows_def o evalString)
  from tl o a b show ?thesis
    by (intro conjI)
qed

section \<open>The overlap flag\<close>

lemma floor_half: "\<lfloor>of_int k + 1 / 2 :: real\<rfloor> = k"
  by linarith

lemma halfStatus_hour:
  "halfStatus g (of_int (h - 1)) = fst (expandHourToHalves (optMember g (showInt h)))"
  by (simp add: halfStatus_def)

lemma halfStatus_half:
  "halfStatus g (of_int (h - 1) + 1 / 2) = snd (expandHourToHalves (optMember g (showInt h)))"
proof -
  have "\<lfloor>of_int (h - 1) + 1 / 2 :: real\<rfloor> = h - 1"
    by (rule floor_half)
  moreover have "(of_int (h - 1) + 1 / 2 :: real) \<noteq> of_int (h - 1)"
    by simp
  ultimately show ?thesis
    by (simp add: halfStatus_def)
qed

lemma hourSignals_halfStatus:
  assumes "s \<in> set (hourSignals mg rg h)"
  shows "fst (snd s) = halfStatus mg (fst s) \<and> fst (snd (snd s)) = halfStatus rg (fst s)
    \<and> snd (snd (snd s)) = (fst (snd s) = JStr ''no'' \<and> fst (snd (snd s)) = JStr ''no'')"
proof -
  from assms consider
      "s = (of_int (h - 1),
            fst (expandHourToHalves (optMember mg (showInt h))),
            fst (expandHourToHalves (optMember rg (showInt h))),
            fst (expandHourToHalves (optMember mg (showInt h))) = JStr ''no''
            \<and> fst (expandHourToHalves (optMember rg (showInt h))) = JStr ''no'')"
    | "s = (of_int (h - 1) + 1 / 2,
            snd (expandHourToHalves (optMember mg (showInt h))),
            snd (expandHourToHalves (optMember rg (showInt h))),
            snd (expandHourToHalves (optMember mg (showInt h))) = JStr ''no''
            \<and> snd (expandHourToHalves (optMember rg (showInt h))) = JStr ''no'')"
    by (auto simp: hourSignals_def)
  then show ?thesis
  proof cases
    case 1
    show ?thesis
      unfolding 1 fst_conv snd_conv halfStatus_hour by simp
  next
    case 2
    show ?thesis
      unfolding 2 fst_conv snd_conv halfStatus_half by simp
  qed
qed

lemma chartData_row_signals:
  assumes "truthy today" and "r \<in> set (chartData today)"
  shows "medicKey r = halfStatus (optMember today ''GPV2.1'') (t r)
    \<and> reserveKey r = halfStatus (optMember today ''GPV5.1'') (t r)
    \<and> overlapNo r = (medicKey r = JStr ''no'' \<and> reserveKey r = JStr ''no'')"
proof -
  have "tickSignals r \<in> set (map tickSignals (chartData today))"
    using assms(2) by simp
  then obtain h where
    "tickSignals r \<in> set (hourSignals (optMember today ''GPV2.1'') (optMember today ''GPV5.1'') h)"
    unfolding chartData_signals [OF assms(1)] by auto
  from hourSignals_halfStatus [OF this] show ?thesis
    by (simp add: tickSignals_def)
qed

text \<open>
  C3. With today data the timeline has the 48 time coordinates 0, 0.5, ..., 23.5, and at
  each of its points the medic and reserve keys are the expanded half-hour statuses of
  the two groups at that time, the overlap flag is true exactly when both are \<open>no\<close>,
  and an overlap interval covers the point exactly when the flag is true: where only one
  of the two groups is \<open>no\<close>, no overlap interval covers the slot.
\<close>

theorem overlap_iff_both_no:
  assumes "truthy today" and "r \<in> set (chartData today)"
  shows "map t (chartData today) = timelineT
     \<and> medicKey r = halfStatus (optMember today ''GPV2.1'') (t r)
     \<and> reserveKey r = halfStatus (optMember today ''GPV5.1'') (t r)
     \<and> overlapNo r = (medicKey r = JStr ''no'' \<and> reserveKey r = JStr ''no'')
     \<and> covered (boolIntervals (chartData today) (\<lambda>r. JBool (overlapNo r))) (t r) = overlapNo r"
proof -
  have a: "map t (chartData today) = timelineT"
    using assms(1) by (simp add: chartData_times)
  note b = chartData_row_signals [OF assms]
  have c: "covered (boolIntervals (chartData today) (\<lambda>r. JBool (overlapNo r))) (t r) = overlapNo r"
    using boolIntervals_covered [OF chartData_sorted chartData_bound assms(2),
        of "\<lambda>r. JBool (overlapNo r)"]
    by simp
  from a b c show ?thesis by simp
qed

lemma chartData_nth_signals:
  assumes "truthy today" and "i < 48"
  shows "tickSignals (chartData today ! i)
    = concat (map (hourSignals (optMember today ''GPV2.1'') (optMember today ''GPV5.1'')) [1..24]) ! i"
proof -
  have "i < length (chartData today)"
    using assms by (simp add: chartData_length)
  then have "tickSignals (chartData today ! i) = map tickSignals (chartData today) ! i"
    by simp
  then show ?thesis
    by (simp only: chartData_signals [OF assms(1)])
qed

theorem overlap_iff_both_no_witness:
  "truthy todayB
   \<and> chartData todayB ! 8 \<in> set (chartData todayB)
   \<and> chartData todayB ! 9 \<in> set (chartData todayB)
   \<and> tickSignals (chartData todayB ! 8) = (4, JStr ''no'', JStr ''yes'', False)
   \<and> tickSignals (chartData todayB ! 9) = (9 / 2, JStr ''no'', JStr ''no'', True)
   \<and> halfStatus (optMember todayB ''GPV2.1'') 4 = JStr ''no''
   \<and> halfStatus (optMember todayB ''GPV5.1'') 4 = JStr ''yes''
   \<and> halfStatus (optMember todayB ''GPV5.1'') (9 / 2) = JStr ''no''
   \<and> \<not> covered (boolIntervals (chartData todayB) (\<lambda>r. JBool (overlapNo r))) 4
   \<and> covered (boolIntervals (chartData todayB) (\<lambda>r. JBool (overlapNo r))) (9 / 2)"
proof -
  have tr: "truthy todayB"
    by (simp add: todayB_def)
  have len: "length (chartData todayB) = 48"
    using tr by (rule chartData_length)
  have m8: "chartData todayB ! 8 \<in> set (chartData todayB)"
    and m9: "chartData todayB ! 9 \<in> set (chartData todayB)"
    by (simp_all add: len)
  have s8: "tickSignals (chartData todayB ! 8) = (4, JStr ''no'', JStr ''yes'', False)"
    unfolding chartData_nth_signals [OF tr, of 8, simplified]
    by (simp add: todayB_def evalSignals)
  have s9: "tickSignals (chartData todayB ! 9) = (9 / 2, JStr ''no'', JStr ''no'', True)"
    unfolding chartData_nth_signals [OF tr, of 9, simplified]
    by (simp add: todayB_def evalSignals)
  note th8 = overlap_iff_both_no [OF tr m8]
  note th9 = overlap_iff_both_no [OF tr m9]
  from s8 have f8: "t (chartData todayB ! 8) = 4" "medicKey (chartData todayB ! 8) = JStr ''no''"
      "reserveKey (chartData todayB ! 8) = JStr ''yes''" "\<not> overlapNo (chartData todayB ! 8)"
    by (simp_all add: tickSignals_def)
  from s9 have f9: "t (chartData todayB ! 9) = 9 / 2" "medicKey (chartData todayB ! 9) = JStr ''no''"
      "reserveKey (chartData todayB ! 9) = JStr ''no''" "overlapNo (chartData todayB ! 9)"
    by (simp_all add: tickSignals_def)
  from th8 have "medicKey (chartData todayB ! 8)
      = halfStatus (optMember todayB ''GPV2.1'') (t (chartData todayB ! 8))"
    by (elim conjE)
  then have h8m: "halfStatus (optMember todayB ''GPV2.1'') 4 = JStr ''no''"
    unfolding f8 by (rule sym)
  from th8 have "reserveKey (chartData todayB ! 8)
      = halfStatus (optMember todayB ''GPV5.1'') (t (chartData todayB ! 8))"
    by (elim conjE)
  then have h8r: "halfStatus (optMember todayB ''GPV5.1'') 4 = JStr ''yes''"
    unfolding f8 by (rule sym)
  from th8 have "covered (boolIntervals (chartData todayB) (\<lambda>r. JBool (overlapNo r)))
      (t (chartData todayB ! 8)) = overlapNo (chartData todayB ! 8)"
    by (elim conjE)
  with f8(4) have c8: "\<not> covered (boolIntervals (chartData todayB) (\<lambda>r. JBool (overlapNo r))) 4"
    unfolding f8(1) by simp
  from th9 have "reserveKey (chartData todayB ! 9)
      = halfStatus (optMember todayB ''GPV5.1'') (t (chartData todayB ! 9))"
    by (elim conjE)
  then have h9r: "halfStatus (optMember todayB ''GPV5.1'') (9 / 2) = JStr ''no''"
    unfolding f9 by (rule sym)
  from th9 have "covered (boolIntervals (chartData todayB) (\<lambda>r. JBool (overlapNo r)))
      (t (chartData todayB ! 9)) = overlapNo (chartData todayB ! 9)"
    by (elim conjE)
  with f9(4) have c9: "covered (boolIntervals (chartData todayB) (\<lambda>r. JBool (overlapNo r))) (9 / 2)"
    unfolding f9(1) by simp
  from tr m8 m9 s8 s9 h8m h8r h9r c8 c9 show ?thesis
    by (intro conjI)
qed

section \<open>Transition ticks\<close>

lemma setAdd_set: "set (setAdd x ticks) = insert x (set ticks)"
  by (auto simp: setAdd_def)

lemma setAdd_distinct: "distinct ticks \<Longrightarrow> distinct (setAdd x ticks)"
  by (simp add: setAdd_def)

lemma changeTimes_short: "changeTimes [] = {}" "changeTimes [a] = {}"
  by (auto simp: changeTimes_def)

lemma changeTimes_Cons:
  "changeTimes (a # b # rows)
     = (if signalsDiffer a b then {t b} else {}) \<union> changeTimes (b # rows)"
proof (intro set_eqI iffI)
  fix x assume "x \<in> changeTimes (a # b # rows)"
  then obtain i where i: "0 < i" "i < length (a # b # rows)"
    and d: "signalsDiffer ((a # b # rows) ! (i - 1)) ((a # b # rows) ! i)"
    and x: "x = t ((a # b # rows) ! i)"
    by (auto simp: changeTimes_def)
  show "x \<in> (if signalsDiffer a b then {t b} else {}) \<union> changeTimes (b # rows)"
  proof (cases "i = 1")
    case True
    with d x show ?thesis by simp
  next
    case False
    with i obtain j where j: "i = Suc j" "0 < j" "j < length (b # rows)"
      by (cases i) auto
    with d x have "signalsDiffer ((b # rows) ! (j - 1)) ((b # rows) ! j)" "x = t ((b # rows) ! j)"
      by (simp_all add: nth_Cons')
    with j have "x \<in> changeTimes (b # rows)"
      unfolding changeTimes_def by blast
    then show ?thesis by simp
  qed
next
  fix x assume "x \<in> (if signalsDiffer a b then {t b} else {}) \<union> changeTimes (b # rows)"
  then consider "signalsDiffer a b" "x = t b" | "x \<in> changeTimes (b # rows)"
    by (auto split: if_splits)
  then show "x \<in> changeTimes (a # b # rows)"
  proof cases
    case 1
    then have "0 < (1::nat) \<and> 1 < length (a # b # rows)
        \<and> signalsDiffer ((a # b # rows) ! (1 - 1)) ((a # b # rows) ! 1)
        \<and> x = t ((a # b # rows) ! 1)"
      by simp
    then show ?thesis
      unfolding changeTimes_def by blast
  next
    case 2
    then obtain j where j: "0 < j" "j < length (b # rows)"
      and d: "signalsDiffer ((b # rows) ! (j - 1)) ((b # rows) ! j)"
      and x: "x = t ((b # rows) ! j)"
      by (auto simp: changeTimes_def)
    then have "0 < Suc j \<and> Suc j < length (a # b # rows)
        \<and> signalsDiffer ((a # b # rows) ! (Suc j - 1)) ((a # b # rows) ! Suc j)
        \<and> x = t ((a # b # rows) ! Suc j)"
      by (simp add: nth_Cons')
    then show ?thesis
      unfolding changeTimes_def by blast
  qed
qed

lemma ticksLoop_step:
  "ticksLoop (a # b # rows) ticks
     = ticksLoop (b # rows) (if signalsDiffer a b then setAdd (t b) ticks else ticks)"
  by (auto simp: signalsDiffer_def setAdd_def Let_def)

lemma ticksLoop_set: "set (ticksLoop rows ticks) = set ticks \<union> changeTimes rows"
proof (induction rows arbitrary: ticks rule: induct_list012)
  case 1
  show ?case by (simp add: changeTimes_short)
next
  case (2 a)
  show ?case by (simp add: changeTimes_short)
next
  case (3 a b rows)
  show ?case
    unfolding ticksLoop_step "3.IH"(2) changeTimes_Cons
    by (auto simp: setAdd_set)
qed

lemma ticksLoop_distinct: "distinct ticks \<Longrightarrow> distinct (ticksLoop rows ticks)"
proof (induction rows arbitrary: ticks rule: induct_list012)
  case 1
  then show ?case by simp
next
  case (2 a)
  then show ?case by simp
next
  case (3 a b rows)
  show ?case
    unfolding ticksLoop_step
    by (rule "3.IH"(2)) (simp add: setAdd_distinct "3.prems")
qed

lemma transitionTicks_set: "set (transitionTicks rows) = {0, 24} \<union> changeTimes rows"
  by (auto simp: transitionTicks_def ticksLoop_set changeTimes_short)

lemma transitionTicks_sorted: "sorted_wrt (<) (transitionTicks rows)"
proof (cases "rows = []")
  case True
  then show ?thesis by (simp add: transitionTicks_def)
next
  case False
  have "distinct (ticksLoop rows [0, 24])"
    by (rule ticksLoop_distinct) simp
  with False show ?thesis
    by (simp add: transitionTicks_def strict_sorted_iff)
qed

lemma tick_iff_change:
  assumes srt: "sorted_wrt (<) (map t rows)" and rng: "\<forall>r\<in>set rows. 0 \<le> t r \<and> t r < 24"
    and i: "0 < i" "i < length rows"
  shows "(t (rows ! i) \<in> set (transitionTicks rows)) = signalsDiffer (rows ! (i - 1)) (rows ! i)"
proof -
  have inj: "j = i" if "j < length rows" "t (rows ! j) = t (rows ! i)" for j
  proof (rule ccontr)
    assume "j \<noteq> i"
    then consider "j < i" | "i < j" by linarith
    then show False
    proof cases
      case 1
      from sorted_wrt_nth_less [OF srt 1] i that show False by simp
    next
      case 2
      from sorted_wrt_nth_less [OF srt 2] i that show False by simp
    qed
  qed
  have len0: "0 < length rows"
    using i by (cases rows) simp_all
  then have "t (rows ! 0) < t (rows ! i)"
    using sorted_wrt_nth_less [OF srt i(1)] i by simp
  moreover have "0 \<le> t (rows ! 0)"
    using rng nth_mem [OF len0] by blast
  moreover have "t (rows ! i) < 24"
    using rng nth_mem [OF i(2)] by blast
  ultimately have ne: "t (rows ! i) \<noteq> 0" "t (rows ! i) \<noteq> 24"
    by simp_all
  have "(t (rows ! i) \<in> changeTimes rows) = signalsDiffer (rows ! (i - 1)) (rows ! i)"
  proof
    assume "t (rows ! i) \<in> changeTimes rows"
    then obtain j where j: "0 < j" "j < length rows"
      "signalsDiffer (rows ! (j - 1)) (rows ! j)" "t (rows ! i) = t (rows ! j)"
      by (auto simp: changeTimes_def)
    from inj [OF j(2)] j(4) have "j = i" by simp
    with j(3) show "signalsDiffer (rows ! (i - 1)) (rows ! i)" by simp
  next
    assume "signalsDiffer (rows ! (i - 1)) (rows ! i)"
    with i show "t (rows ! i) \<in> changeTimes rows"
      unfolding changeTimes_def by blast
  qed
  with ne show ?thesis
    by (simp add: transitionTicks_set)
qed

text \<open>
  C5. For every row list, the empty one included, the tick list is in strictly ascending
  order and holds exactly 0, 24 and the times of the points whose medic key, reserve key
  or overlap flag differs from the point just before; for the empty list it is [0, 24].
  On a timeline in strictly ascending order within [0, 24), the time of a point after the
  first is a tick exactly when its signals differ from its predecessor's.
\<close>

theorem transition_ticks_exact:
  "sorted_wrt (<) (transitionTicks rows)
   \<and> set (transitionTicks rows) = {0, 24} \<union> changeTimes rows
   \<and> transitionTicks [] = [0, 24]
   \<and> (sorted_wrt (<) (map t rows) \<and> (\<forall>r\<in>set rows. 0 \<le> t r \<and> t r < 24)
        \<and> 0 < i \<and> i < length rows
        \<longrightarrow> (t (rows ! i) \<in> set (transitionTicks rows))
              = signalsDiffer (rows ! (i - 1)) (rows ! i))"
proof (intro conjI impI)
  show "sorted_wrt (<) (transitionTicks rows)"
    by (rule transitionTicks_sorted)
  show "set (transitionTicks rows) = {0, 24} \<union> changeTimes rows"
    by (rule transitionTicks_set)
  show "transitionTicks [] = [0, 24]"
    by (simp add: transitionTicks_def)
  show "(t (rows ! i) \<in> set (transitionTicks rows)) = signalsDiffer (rows ! (i - 1)) (rows ! i)"
    if "sorted_wrt (<) (map t rows) \<and> (\<forall>r\<in>set rows. 0 \<le> t r \<and> t r < 24)
        \<and> 0 < i \<and> i < length rows"
    using that by (intro tick_iff_change) simp_all
qed

theorem transition_ticks_exact_witness:
  "transitionTicks sampleRows = [0, 1, 3 / 2, 24]
   \<and> sorted_wrt (<) [0, 1, 3 / 2, 24 :: real]
   \<and> changeTimes sampleRows = {1, 3 / 2}
   \<and> sorted_wrt (<) (map t sampleRows)
   \<and> list_all (\<lambda>r. 0 \<le> t r \<and> t r < 24) sampleRows
   \<and> signalsDiffer (sampleRows ! 1) (sampleRows ! 2)
   \<and> t (sampleRows ! 2) \<in> set (transitionTicks sampleRows)
   \<and> \<not> signalsDiffer (sampleRows ! 0) (sampleRows ! 1)
   \<and> t (sampleRows ! 1) \<notin> set (transitionTicks sampleRows)"
proof -
  note th1 = transition_ticks_exact [of sampleRows 1]
  note th2 = transition_ticks_exact [of sampleRows 2]
  have e: "transitionTicks sampleRows = [0, 1, 3 / 2, 24]"
    by (simp add: transitionTicks_def sampleRows_def sampleRow_def setAdd_def)
  from th1 have "sorted_wrt (<) (transitionTicks sampleRows)"
    by (elim conjE)
  then have s: "sorted_wrt (<) [0, 1, 3 / 2, 24 :: real]"
    unfolding e .
  from th1 have st: "set (transitionTicks sampleRows) = {0, 24} \<union> changeTimes sampleRows"
    by (elim conjE)
  have notin: "0 \<notin> changeTimes sampleRows" "24 \<notin> changeTimes sampleRows"
    by (auto simp: changeTimes_def sampleRows_def sampleRow_def nth_Cons')
  then have "changeTimes sampleRows = ({0, 24} \<union> changeTimes sampleRows) - {0, 24}"
    by auto
  also have "\<dots> = set [0, 1, 3 / 2, 24 :: real] - {0, 24}"
    by (simp only: st [symmetric] e)
  also have "\<dots> = {1, 3 / 2}"
    by auto
  finally have c: "changeTimes sampleRows = {1, 3 / 2}" .
  have srt: "sorted_wrt (<) (map t sampleRows)"
    and rng: "list_all (\<lambda>r. 0 \<le> t r \<and> t r < 24) sampleRows"
    by (simp_all add: sampleRows_def sampleRow_def)
  have d2: "signalsDiffer (sampleRows ! 1) (sampleRows ! 2)"
    and d1: "\<not> signalsDiffer (sampleRows ! 0) (sampleRows ! 1)"
    by (simp_all add: signalsDiffer_def sampleRows_def sampleRow_def)
  have pre: "sorted_wrt (<) (map t sampleRows) \<and> (\<forall>r\<in>set sampleRows. 0 \<le> t r \<and> t r < 24)"
    using srt rng by (simp add: list_all_iff)
  have len: "length sampleRows = 4"
    by (simp add: sampleRows_def)
  from th2 have "sorted_wrt (<) (map t sampleRows) \<and> (\<forall>r\<in>set sampleRows. 0 \<le> t r \<and> t r < 24)
        \<and> 0 < (2::nat) \<and> 2 < length sampleRows
        \<longrightarrow> (t (sampleRows ! 2) \<in> set (transitionTicks sampleRows))
              = signalsDiffer (sampleRows ! (2 - 1)) (sampleRows ! 2)"
    by (elim conjE)
  with pre len d2 have t2: "t (sampleRows ! 2) \<in> set (transitionTicks sampleRows)"
    by simp
  from th1 have "sorted_wrt (<) (map t sampleRows) \<and> (\<forall>r\<in>set sampleRows. 0 \<le> t r \<and> t r < 24)
        \<and> 0 < (1::nat) \<and> 1 < length sampleRows
        \<longrightarrow> (t (sampleRows ! 1) \<in> set (transitionTicks sampleRows))
              = signalsDiffer (sampleRows ! (1 - 1)) (sampleRows ! 1)"
    by (elim conjE)
  with pre len d1 have t1: "t (sampleRows ! 1) \<notin> set (transitionTicks sampleRows)"
    by simp
  from e s c srt rng d2 t2 d1 t1 show ?thesis
    by (intro conjI)
qed

section \<open>Ticks do not depend on the home group\<close>

lemma signalsDiffer_signals:
  "tickSignals a = tickSignals a' \<Longrightarrow> tickSignals b = tickSignals b'
   \<Longrightarrow> signalsDiffer a b = signalsDiffer a' b'"
  by (simp add: tickSignals_def signalsDiffer_def)

lemma ticksLoop_cong:
  "map tickSignals rows = map tickSignals rows' \<Longrightarrow> ticksLoop rows ticks = ticksLoop rows' ticks"
proof (induction rows arbitrary: rows' ticks rule: induct_list012)
  case 1
  then show ?case by simp
next
  case (2 a)
  then obtain a' where "rows' = [a']" by auto
  then show ?case by simp
next
  case (3 a b rows)
  from "3.prems" obtain a' b' rest where r: "rows' = a' # b' # rest"
    and a: "tickSignals a = tickSignals a'" and b: "tickSignals b = tickSignals b'"
    and rest: "map tickSignals rows = map tickSignals rest"
    by (auto simp: map_eq_Cons_conv)
  have tb: "t b = t b'"
    using b by (simp add: tickSignals_def)
  have "ticksLoop (b # rows) tk = ticksLoop (b' # rest) tk" for tk
    by (rule "3.IH"(2)) (simp add: b rest)
  then show ?case
    unfolding r ticksLoop_step signalsDiffer_signals [OF a b] tb by simp
qed

lemma transitionTicks_cong:
  assumes "map tickSignals rows = map tickSignals rows'"
  shows "transitionTicks rows = transitionTicks rows'"
proof -
  have "(rows = []) = (rows' = [])"
    using assms by (metis map_is_Nil_conv)
  then show ?thesis
    by (simp add: transitionTicks_def ticksLoop_cong [OF assms])
qed

text \<open>
  C10. Two snapshots with today data that agree on the medic (GPV2.1) and reserve
  (GPV5.1) groups, so differ at most in the home group's schedule, have the same tick
  list: the ticks are computed from each point's time, medic key, reserve key and overlap
  flag alone, and none of these reads the home group.
\<close>

theorem ticks_ignore_home:
  assumes "truthy today1" and "truthy today2"
    and "optMember today1 ''GPV2.1'' = optMember today2 ''GPV2.1''"
    and "optMember today1 ''GPV5.1'' = optMember today2 ''GPV5.1''"
  shows "map tickSignals (chartData today1) = map tickSignals (chartData today2)
     \<and> transitionTicks (chartData today1) = transitionTicks (chartData today2)
     \<and> (\<forall>rows rows'. map tickSignals rows = map tickSignals rows'
           \<longrightarrow> transitionTicks rows = transitionTicks rows')"
proof -
  have a: "map tickSignals (chartData today1) = map tickSignals (chartData today2)"
    using assms by (simp add: chartData_signals)
  from a have b: "transitionTicks (chartData today1) = transitionTicks (chartData today2)"
    by (rule transitionTicks_cong)
  from a b show ?thesis
    by (auto intro: transitionTicks_cong)
qed

theorem ticks_ignore_home_witness:
  "truthy todayB \<and> truthy todayC
   \<and> optMember todayB ''GPV2.1'' = optMember todayC ''GPV2.1''
   \<and> optMember todayB ''GPV5.1'' = optMember todayC ''GPV5.1''
   \<and> optMember todayB ''GPV1.1'' \<noteq> optMember todayC ''GPV1.1''
   \<and> map homeKey (chartData todayB) \<noteq> map homeKey (chartData todayC)
   \<and> transitionTicks (chartData todayB) = transitionTicks (chartData todayC)
   \<and> transitionTicks (chartData todayB) = [0, 2, 4, 9 / 2, 5, 10, 11, 23 / 2, 12, 24]"
proof -
  have tb: "truthy todayB" and tc: "truthy todayC"
    by (simp_all add: todayB_def todayC_def)
  have m: "optMember todayB ''GPV2.1'' = optMember todayC ''GPV2.1''"
    and r: "optMember todayB ''GPV5.1'' = optMember todayC ''GPV5.1''"
    and h: "optMember todayB ''GPV1.1'' \<noteq> optMember todayC ''GPV1.1''"
    by (simp_all add: todayB_def todayC_def)
  have "homeKey (chartData todayB ! 0) = JStr ''maybe''"
    unfolding chartData_truthy [OF tb] hours24
    by (simp add: hourRows_unfold todayB_def expand_unfold normalizeStatusKey_def
        STATUS_ORDER_def showInt_def showNat_small digitChar_def orNull_def)
  moreover have "homeKey (chartData todayC ! 0) = JStr ''no''"
    unfolding chartData_truthy [OF tc] hours24
    by (simp add: hourRows_unfold todayC_def expand_unfold normalizeStatusKey_def
        STATUS_ORDER_def showInt_def showNat_small digitChar_def orNull_def)
  moreover have "0 < length (chartData todayB)" "0 < length (chartData todayC)"
    using tb tc by (simp_all add: chartData_length)
  ultimately have "map homeKey (chartData todayB) ! 0 \<noteq> map homeKey (chartData todayC) ! 0"
    by simp
  then have d: "map homeKey (chartData todayB) \<noteq> map homeKey (chartData todayC)"
    by metis
  from ticks_ignore_home [OF tb tc m r]
  have e: "transitionTicks (chartData todayB) = transitionTicks (chartData todayC)"
    by (elim conjE)
  have "transitionTicks (chartData todayB)
      = transitionTicks (map rowOfSignals (map tickSignals (chartData todayB)))"
    by (rule transitionTicks_cong) (simp add: comp_def tickSignals_def rowOfSignals_def)
  also have "\<dots> = [0, 2, 4, 9 / 2, 5, 10, 11, 23 / 2, 12, 24]"
    unfolding chartData_signals [OF tb]
    by (simp add: todayB_def evalSignals rowOfSignals_def transitionTicks_def ticksLoop_step
        signalsDiffer_def setAdd_def del: ticksLoop.simps(1))
  finally have f: "transitionTicks (chartData todayB) = [0, 2, 4, 9 / 2, 5, 10, 11, 23 / 2, 12, 24]" .
  from tb tc m r h d e f show ?thesis
    by (intro conjI)
qed

end
